theory Spec2Isabelle
  imports Complex_Main
begin

section \<open>Dice or Die: the game store (src/src/stores/game.js)\<close>

text \<open>
  A shallow embedding of the Pinia store \<^verbatim>\<open>useGameStore\<close>. The store is one mutable
  object; every action of the store becomes a function from the state before the call to
  the state after it. An \<^verbatim>\<open>async\<close> action is modelled as one uninterrupted call: the
  \<^verbatim>\<open>await\<close>s of the source only wait for timers, and the order of the writes is the
  order of the source. Fields that exist only for display (gameMessage, bossLastRoll,
  lastGeneralRoll, showGeneralRollAnimation, highlightedTargetSquare, assetsLoaded and the
  animation speed and durations) are left out; no modelled action reads them.

  JavaScript numbers are modelled as \<^typ>\<open>int\<close>: every number the store computes is an
  integer, except moneyMultiplier, which is a \<^typ>\<open>real\<close> and only appears under
  \<^verbatim>\<open>Math.floor\<close>. Where the source would leave the integers (\<^verbatim>\<open>x % 0\<close>, arithmetic
  on \<^verbatim>\<open>undefined\<close>) or throw, the model returns an error value.
\<close>

subsection \<open>Data model\<close>

datatype error = TypeError | NotANumber

record BossDefeatCondition =
  diceThrows :: int
  hp :: int
  bribeCost :: int

record StageConfig =
  rows :: int
  cols :: int
  moneyMultiplier :: real
  lapsToComplete :: int
  minBadSquares :: int
  maxBadSquares :: int
  minChoiceDiceMoneySquares :: int
  maxChoiceDiceMoneySquares :: int
  minChoicePickDieSquares :: int
  maxChoicePickDieSquares :: int
  bossName :: string
  bossImage :: string
  bossDefeatCondition :: BossDefeatCondition

datatype dice_type = NORMAL | FIXED | D20 | REVERSE_FIXED | REVERSE_RANDOM

text \<open>A die is the object \<^verbatim>\<open>{type, value}\<close>; \<^verbatim>\<open>value\<close> is absent on the random kinds.\<close>

record die =
  die_type :: dice_type
  die_value :: "int option"

datatype base_type = B_normal | B_start | B_corner_bl | B_corner_br | B_corner_tr

datatype effect_type =
  E_none | E_temp_bad_lap | E_huge_money | E_normal_money | E_choice_dice_money | E_choice_pick_die

text \<open>\<^verbatim>\<open>effectDetails\<close> is \<^verbatim>\<open>null\<close>, \<^verbatim>\<open>{penalty: n}\<close> or \<^verbatim>\<open>{amount: n}\<close>.\<close>

datatype effect_details = Penalty int | Amount int

record square =
  sq_id :: int
  baseType :: base_type
  currentEffectType :: effect_type
  isTempBad :: bool
  effectDetails :: "effect_details option"

datatype phase =
  rolling | dice_rolling_animation | player_moving_animation | landed | awaiting_choice
  | boss_encounter | boss_encounter_intro | game_lost | game_won

datatype direction = forward | backward

record dice_roll =
  roll_value :: int
  roll_type :: dice_type
  roll_originalType :: dice_type
  roll_direction :: direction

text \<open>
  An option of a choice: the \<^verbatim>\<open>action\<close> string together with its \<^verbatim>\<open>value\<close>
  (\<^verbatim>\<open>get_money_bonus\<close> carries a number, \<^verbatim>\<open>get_chosen_die\<close> a die).
\<close>

datatype choice_option = get_money_bonus int | get_chosen_die die

datatype choice_type = dice_vs_money | pick_a_die

record choice_details =
  choice_kind :: choice_type
  options :: "choice_option list"

text \<open>\<^verbatim>\<open>currentBoss\<close>: the stage's bossDefeatCondition spread, plus image and name.\<close>

record boss =
  boss_diceThrows :: int
  boss_hp :: int
  boss_bribeCost :: int
  boss_image :: string
  boss_name :: string

record game_state =
  boardRows :: int
  boardCols :: int
  playerPosition :: int
  playerMoney :: int
  playerLap :: int
  playerStage :: int
  lastDiceRoll :: "dice_roll option"
  reservedDice :: "die list"
  maxDiceInBag :: int
  boardSquares :: "square list"
  isGameOver :: bool
  gamePhase :: phase
  choiceDetails :: "choice_details option"
  isAnimating :: bool
  lastPlayerPositionBeforeThisMove :: int
  currentBoss :: "boss option"
  currentDiceThrows :: "int list"
  remainingBossRolls :: int
  currentBossHP :: "int option"
  currentBossMaxHP :: "int option"
  totalRolls :: int
  diceObtained :: int
  bossesDefeated :: int
  perfectBossDefeats :: int
  bribesBosses :: int
  showSummaryModal :: bool
  currentStageConfig :: StageConfig

subsection \<open>Configuration\<close>

definition stage1 :: StageConfig where
  "stage1 = \<lparr>rows = 6, cols = 6, moneyMultiplier = 1, lapsToComplete = 3,
     minBadSquares = 1, maxBadSquares = 2,
     minChoiceDiceMoneySquares = 2, maxChoiceDiceMoneySquares = 4,
     minChoicePickDieSquares = 2, maxChoicePickDieSquares = 4,
     bossName = ''Recaudador de Impuestos'', bossImage = ''tax_collector.png'',
     bossDefeatCondition = \<lparr>diceThrows = 3, hp = 15, bribeCost = 40\<rparr>\<rparr>"

definition stage2 :: StageConfig where
  "stage2 = \<lparr>rows = 9, cols = 9, moneyMultiplier = 3 / 2, lapsToComplete = 3,
     minBadSquares = 2, maxBadSquares = 4,
     minChoiceDiceMoneySquares = 4, maxChoiceDiceMoneySquares = 8,
     minChoicePickDieSquares = 4, maxChoicePickDieSquares = 8,
     bossName = ''Goblin Codicioso'', bossImage = ''greedy_goblin_king.webp'',
     bossDefeatCondition = \<lparr>diceThrows = 3, hp = 30, bribeCost = 80\<rparr>\<rparr>"

definition stage3 :: StageConfig where
  "stage3 = \<lparr>rows = 9, cols = 9, moneyMultiplier = 7 / 4, lapsToComplete = 3,
     minBadSquares = 2, maxBadSquares = 4,
     minChoiceDiceMoneySquares = 4, maxChoiceDiceMoneySquares = 8,
     minChoicePickDieSquares = 4, maxChoicePickDieSquares = 8,
     bossName = ''Comandante Orco'', bossImage = ''orc_general.png'',
     bossDefeatCondition = \<lparr>diceThrows = 3, hp = 40, bribeCost = 70\<rparr>\<rparr>"

definition stage4 :: StageConfig where
  "stage4 = \<lparr>rows = 10, cols = 14, moneyMultiplier = 2, lapsToComplete = 3,
     minBadSquares = 4, maxBadSquares = 8,
     minChoiceDiceMoneySquares = 8, maxChoiceDiceMoneySquares = 16,
     minChoicePickDieSquares = 8, maxChoicePickDieSquares = 16,
     bossName = ''Dragon Tesorero'', bossImage = ''dragon_treasurer.png'',
     bossDefeatCondition = \<lparr>diceThrows = 3, hp = 50, bribeCost = 100\<rparr>\<rparr>"

definition stage5 :: StageConfig where
  "stage5 = \<lparr>rows = 10, cols = 14, moneyMultiplier = 5 / 2, lapsToComplete = 3,
     minBadSquares = 4, maxBadSquares = 8,
     minChoiceDiceMoneySquares = 8, maxChoiceDiceMoneySquares = 16,
     minChoicePickDieSquares = 8, maxChoicePickDieSquares = 16,
     bossName = ''Gato Dios Oscuro'', bossImage = ''dark_godcat.webp'',
     bossDefeatCondition = \<lparr>diceThrows = 3, hp = 70, bribeCost = 200\<rparr>\<rparr>"

text \<open>The table \<^verbatim>\<open>STAGE_CONFIGS\<close>: a lookup of a missing key is \<^verbatim>\<open>undefined\<close>.\<close>

definition STAGE_CONFIGS :: "int \<Rightarrow> StageConfig option" where
  "STAGE_CONFIGS n =
     (if n = 1 then Some stage1 else if n = 2 then Some stage2 else if n = 3 then Some stage3
      else if n = 4 then Some stage4 else if n = 5 then Some stage5 else None)"

definition MAX_RESERVED_DICE :: int where
  "MAX_RESERVED_DICE = 15"

definition MAX_STAGES :: int where
  "MAX_STAGES = 5"

definition HUGE_MONEY_AMOUNT_BASE :: int where
  "HUGE_MONEY_AMOUNT_BASE = 10"

subsection \<open>Random numbers\<close>

text \<open>
  \<^verbatim>\<open>Math.random()\<close> is modelled by a stream of numbers handed to the action: each call
  takes the head of the stream. The contract of \<^verbatim>\<open>Math.random\<close>, a result in
  \<open>[0, 1)\<close>, is the predicate \<open>valid_rng\<close>; theorems that depend on it assume it.
\<close>

type_synonym rng = "nat \<Rightarrow> real"

definition valid_rng :: "rng \<Rightarrow> bool" where
  "valid_rng g = (\<forall>n. 0 \<le> g n \<and> g n < 1)"

definition rng_tl :: "rng \<Rightarrow> rng" where
  "rng_tl g = (\<lambda>n. g (Suc n))"

definition Math_random :: "rng \<Rightarrow> real \<times> rng" where
  "Math_random g = (g 0, rng_tl g)"

text \<open>
  \<^verbatim>\<open>getRandomInt(min, max)\<close>; every caller passes integers, on which the
  \<^verbatim>\<open>Math.ceil\<close> and \<^verbatim>\<open>Math.floor\<close> of the bounds are the identity. The product
  with the random number is taken in the reals: the rounding of the floating-point
  product is not modelled.
\<close>

definition getRandomInt :: "int \<Rightarrow> int \<Rightarrow> rng \<Rightarrow> int \<times> rng" where
  "getRandomInt lo hi g =
     (let (u, g') = Math_random g in (\<lfloor>u * of_int (hi - lo + 1)\<rfloor> + lo, g'))"

text \<open>
  \<^verbatim>\<open>shuffleArray\<close>: the loop \<^verbatim>\<open>for (i = length - 1; i > 0; i--)\<close> swapping
  \<^verbatim>\<open>array[i]\<close> and \<^verbatim>\<open>array[j]\<close>, \<^verbatim>\<open>j = floor(random * (i + 1))\<close>.
  \<open>shuffle_from i\<close> runs the loop from index \<open>i\<close> downwards.
\<close>

fun shuffle_from :: "nat \<Rightarrow> 'a list \<Rightarrow> rng \<Rightarrow> 'a list \<times> rng" where
  "shuffle_from 0 xs g = (xs, g)"
| "shuffle_from (Suc i) xs g =
     (let (u, g') = Math_random g;
          j = nat \<lfloor>u * of_nat (Suc i + 1)\<rfloor>
      in shuffle_from i (xs[Suc i := xs ! j, j := xs ! Suc i]) g')"

definition shuffleArray :: "'a list \<Rightarrow> rng \<Rightarrow> 'a list \<times> rng" where
  "shuffleArray xs g = shuffle_from (length xs - 1) xs g"

subsection \<open>Getters\<close>

text \<open>Reading \<^verbatim>\<open>array[i]\<close>: \<^verbatim>\<open>undefined\<close> outside the array.\<close>

definition arr_get :: "'a list \<Rightarrow> int \<Rightarrow> 'a option" where
  "arr_get xs i = (if 0 \<le> i \<and> i < int (length xs) then Some (xs ! nat i) else None)"

definition totalBoardSquares :: "game_state \<Rightarrow> int" where
  "totalBoardSquares s =
     (let config = currentStageConfig s in
      if rows config = 0 \<or> cols config = 0 then 0
      else if rows config \<le> 1 \<or> cols config \<le> 1 then rows config * cols config
      else 2 * rows config + 2 * cols config - 4)"

definition cornerSquareIds :: "game_state \<Rightarrow> int list" where
  "cornerSquareIds s =
     (let config = currentStageConfig s in
      if rows config = 0 \<or> cols config = 0 \<or> rows config \<le> 1 \<or> cols config \<le> 1 then []
      else [0, rows config - 1, rows config - 1 + (cols config - 1),
            rows config - 1 + (cols config - 1) + (rows config - 1)])"

definition bottomRightCornerId :: "game_state \<Rightarrow> int" where
  "bottomRightCornerId s =
     (let config = currentStageConfig s in
      if rows config = 0 \<or> cols config = 0 \<or> rows config \<le> 1 \<or> cols config \<le> 1 then - 1
      else rows config - 1 + (cols config - 1))"

definition candidateSquareIds :: "game_state \<Rightarrow> int list" where
  "candidateSquareIds s =
     (if boardSquares s = [] then []
      else map sq_id
             (filter (\<lambda>sq. baseType sq = B_normal \<and> sq_id sq \<notin> set (cornerSquareIds s))
                (boardSquares s)))"

definition currentHugeMoneyValue :: "game_state \<Rightarrow> int" where
  "currentHugeMoneyValue s = HUGE_MONEY_AMOUNT_BASE * playerStage s"

subsection \<open>Board generator\<close>

definition newSquare :: "int list \<Rightarrow> int \<Rightarrow> int \<Rightarrow> square" where
  "newSquare corners brCornerId i =
     \<lparr>sq_id = i,
      baseType =
        (if arr_get corners 0 = Some i then B_start
         else if arr_get corners 1 = Some i then B_corner_bl
         else if i = brCornerId then B_corner_br
         else if arr_get corners 3 = Some i then B_corner_tr
         else B_normal),
      currentEffectType = E_none, isTempBad = False, effectDetails = None\<rparr>"

definition generateBoardLayout :: "game_state \<Rightarrow> game_state" where
  "generateBoardLayout s =
     s\<lparr>boardSquares :=
         map (\<lambda>i. newSquare (cornerSquareIds s) (bottomRightCornerId s) (int i))
           [0 ..< nat (totalBoardSquares s)]\<rparr>"

text \<open>
  \<^verbatim>\<open>squareIdToIndexMap\<close> of setupLapEffects: \<^verbatim>\<open>new Map(pairs)\<close> keeps, for an id that
  occurs twice, the last index.
\<close>

definition squareIdToIndexMap :: "square list \<Rightarrow> int \<Rightarrow> nat option" where
  "squareIdToIndexMap b = map_of (rev (zip (map sq_id b) [0 ..< length b]))"

definition resetSquare :: "square \<Rightarrow> square" where
  "resetSquare sq =
     (if baseType sq = B_normal
      then sq\<lparr>isTempBad := False, currentEffectType := E_none, effectDetails := None\<rparr>
      else sq\<lparr>isTempBad := False\<rparr>)"

text \<open>
  The three quota loops of setupLapEffects. Each runs at most \<open>n\<close> times, stops when the
  candidates are used up, pops the last candidate and writes the square found under
  that id (nothing when the map has no such id).
\<close>

fun assignBad ::
  "nat \<Rightarrow> (int \<Rightarrow> nat option) \<Rightarrow> int \<Rightarrow> int list \<Rightarrow> square list \<Rightarrow> rng
     \<Rightarrow> int list \<times> square list \<times> rng" where
  "assignBad 0 idx stage av b g = (av, b, g)"
| "assignBad (Suc n) idx stage av b g =
     (if av = [] then (av, b, g)
      else case idx (last av) of
             None \<Rightarrow> assignBad n idx stage (butlast av) b g
           | Some k \<Rightarrow>
               (let (p, g') = getRandomInt 5 15 g
                in assignBad n idx stage (butlast av)
                     (b[k := (b ! k)\<lparr>isTempBad := True, currentEffectType := E_temp_bad_lap,
                                     effectDetails := Some (Penalty (p * stage))\<rparr>]) g'))"

fun assignChoice ::
  "effect_type \<Rightarrow> nat \<Rightarrow> (int \<Rightarrow> nat option) \<Rightarrow> int list \<Rightarrow> square list
     \<Rightarrow> int list \<times> square list" where
  "assignChoice e 0 idx av b = (av, b)"
| "assignChoice e (Suc n) idx av b =
     (if av = [] then (av, b)
      else case idx (last av) of
             None \<Rightarrow> assignChoice e n idx (butlast av) b
           | Some k \<Rightarrow>
               assignChoice e n idx (butlast av) (b[k := (b ! k)\<lparr>currentEffectType := e\<rparr>]))"

text \<open>
  The final \<^verbatim>\<open>forEach\<close> over the candidates that are left: 15% huge_money, otherwise
  normal_money with amount \<^verbatim>\<open>floor(getRandomInt(1, 3) * moneyMultiplier)\<close>.
\<close>

fun assignMoney ::
  "(int \<Rightarrow> nat option) \<Rightarrow> int \<Rightarrow> real \<Rightarrow> int list \<Rightarrow> square list \<Rightarrow> rng
     \<Rightarrow> square list \<times> rng" where
  "assignMoney idx huge mult [] b g = (b, g)"
| "assignMoney idx huge mult (i # ids) b g =
     (case idx i of
        None \<Rightarrow> assignMoney idx huge mult ids b g
      | Some k \<Rightarrow>
          (let (rand, g1) = Math_random g in
           if rand < 15 / 100
           then assignMoney idx huge mult ids
                  (b[k := (b ! k)\<lparr>currentEffectType := E_huge_money,
                                  effectDetails := Some (Amount huge)\<rparr>]) g1
           else
             (let (r, g2) = getRandomInt 1 3 g1
              in assignMoney idx huge mult ids
                   (b[k := (b ! k)\<lparr>currentEffectType := E_normal_money,
                                   effectDetails := Some (Amount \<lfloor>of_int r * mult\<rfloor>)\<rparr>]) g2)))"

definition setupLapEffects :: "game_state \<Rightarrow> rng \<Rightarrow> game_state \<times> rng" where
  "setupLapEffects s g =
     (let config = currentStageConfig s;
          b0 = map resetSquare (boardSquares s);
          s0 = s\<lparr>boardSquares := b0\<rparr>;
          idx = squareIdToIndexMap b0;
          (av0, g0) = shuffleArray (candidateSquareIds s0) g;
          (numBadSquares, g1) = getRandomInt (minBadSquares config) (maxBadSquares config) g0;
          (av1, b1, g2) = assignBad (nat numBadSquares) idx (playerStage s) av0 b0 g1;
          (numChoiceDiceMoney, g3) =
             getRandomInt (minChoiceDiceMoneySquares config) (maxChoiceDiceMoneySquares config) g2;
          (av2, b2) = assignChoice E_choice_dice_money (nat numChoiceDiceMoney) idx av1 b1;
          (numChoicePickDie, g4) =
             getRandomInt (minChoicePickDieSquares config) (maxChoicePickDieSquares config) g3;
          (av3, b3) = assignChoice E_choice_pick_die (nat numChoicePickDie) idx av2 b2;
          (b4, g5) = assignMoney idx (currentHugeMoneyValue s) (moneyMultiplier config) av3 b3 g4
      in (s\<lparr>boardSquares := b4\<rparr>, g5))"

subsection \<open>Stage set-up\<close>

text \<open>
  setupStage. Its guard \<^verbatim>\<open>if (!config)\<close> never fires: currentStageConfig always holds
  a configuration (nextStage only writes one that it found).
\<close>

definition setupStage :: "game_state \<Rightarrow> rng \<Rightarrow> game_state \<times> rng" where
  "setupStage s g =
     (let config = currentStageConfig s;
          s1 = s\<lparr>boardRows := rows config, boardCols := cols config, playerLap := 1,
                 playerPosition := 0, lastPlayerPositionBeforeThisMove := 0,
                 lastDiceRoll := None, choiceDetails := None\<rparr>;
          (s2, g') = setupLapEffects (generateBoardLayout s1) g
      in (s2\<lparr>gamePhase := rolling, isAnimating := False\<rparr>, g'))"

definition initializeGame :: "game_state \<Rightarrow> rng \<Rightarrow> game_state" where
  "initializeGame s g =
     (let s1 = s\<lparr>playerStage := 1, isGameOver := False, isAnimating := False,
                 reservedDice := [], playerMoney := 0\<rparr>;
          (s2, g') = setupStage s1 g
      in if gamePhase s2 \<noteq> awaiting_choice then s2\<lparr>gamePhase := rolling\<rparr> else s2)"

definition resetGame :: "game_state \<Rightarrow> rng \<Rightarrow> game_state" where
  "resetGame s g =
     fst (setupStage
            (s\<lparr>playerMoney := 0, playerLap := 0, playerStage := 1, totalRolls := 0,
               diceObtained := 0, bossesDefeated := 0, perfectBossDefeats := 0,
               bribesBosses := 0, reservedDice := [], lastDiceRoll := None,
               currentDiceThrows := [], remainingBossRolls := 0, currentBoss := None,
               gamePhase := rolling, isGameOver := False, showSummaryModal := False,
               currentStageConfig := stage1\<rparr>) g)"

definition addReservedDie :: "die \<Rightarrow> game_state \<Rightarrow> game_state" where
  "addReservedDie dieData s =
     (if int (length (reservedDice s)) < maxDiceInBag s
      then s\<lparr>reservedDice := reservedDice s @ [dieData], diceObtained := diceObtained s + 1\<rparr>
      else s)"

subsection \<open>Square landing\<close>

text \<open>The signature that deduplicates the dice offered by a pick-a-die square.\<close>

definition signature :: "die \<Rightarrow> dice_type \<times> int option option" where
  "signature d =
     (die_type d,
      if die_type d = FIXED \<or> die_type d = REVERSE_FIXED then Some (die_value d) else None)"

fun pickOffers ::
  "int \<Rightarrow> die list \<Rightarrow> choice_option list \<Rightarrow> (dice_type \<times> int option option) list
     \<Rightarrow> choice_option list" where
  "pickOffers numOffer [] finalOpts sigs = finalOpts"
| "pickOffers numOffer (d # dPool) finalOpts sigs =
     (if int (length finalOpts) \<ge> numOffer then finalOpts
      else if signature d \<notin> set sigs
      then pickOffers numOffer dPool (finalOpts @ [get_chosen_die d]) (sigs @ [signature d])
      else pickOffers numOffer dPool finalOpts sigs)"

definition dPool :: "int \<Rightarrow> die list" where
  "dPool r =
     [\<lparr>die_type = FIXED, die_value = Some 1\<rparr>, \<lparr>die_type = FIXED, die_value = Some 2\<rparr>,
      \<lparr>die_type = FIXED, die_value = Some 3\<rparr>, \<lparr>die_type = FIXED, die_value = Some 4\<rparr>,
      \<lparr>die_type = FIXED, die_value = Some 5\<rparr>, \<lparr>die_type = FIXED, die_value = Some 6\<rparr>,
      \<lparr>die_type = D20, die_value = None\<rparr>, \<lparr>die_type = REVERSE_RANDOM, die_value = None\<rparr>,
      \<lparr>die_type = REVERSE_FIXED, die_value = Some r\<rparr>, \<lparr>die_type = NORMAL, die_value = None\<rparr>]"

text \<open>
  The \<^verbatim>\<open>switch\<close> of handleSquareLanding on the square's effect, applied to the square
  at index \<open>k\<close>. It has no case for normal_money and none for none.
\<close>

definition landingEffect :: "nat \<Rightarrow> square \<Rightarrow> game_state \<Rightarrow> rng \<Rightarrow> game_state" where
  "landingEffect k sq s g =
     (case currentEffectType sq of
        E_temp_bad_lap \<Rightarrow>
          (let penalty =
                 (case effectDetails sq of
                    Some (Penalty p) \<Rightarrow>
                      if p \<noteq> 0 then p else fst (getRandomInt 5 15 g) * playerStage s
                  | _ \<Rightarrow> fst (getRandomInt 5 15 g) * playerStage s)
           in s\<lparr>playerMoney := playerMoney s - penalty\<rparr>)
      | E_huge_money \<Rightarrow>
          (let hugeGain =
                 (case effectDetails sq of
                    Some (Amount a) \<Rightarrow> if a \<noteq> 0 then a else currentHugeMoneyValue s
                  | _ \<Rightarrow> currentHugeMoneyValue s)
           in s\<lparr>playerMoney := playerMoney s + hugeGain,
                boardSquares :=
                  (boardSquares s)[k := sq\<lparr>currentEffectType := E_none, effectDetails := None\<rparr>]\<rparr>)
      | E_choice_dice_money \<Rightarrow>
          (let (rdc, g1) = Math_random g;
               offeredDieInChoice =
                 (if rdc < 6 / 10
                  then \<lparr>die_type = FIXED, die_value = Some (fst (getRandomInt 2 6 g1))\<rparr>
                  else if rdc < 85 / 100 then \<lparr>die_type = REVERSE_RANDOM, die_value = None\<rparr>
                  else \<lparr>die_type = D20, die_value = None\<rparr>)
           in s\<lparr>gamePhase := awaiting_choice,
                choiceDetails :=
                  Some \<lparr>choice_kind = dice_vs_money,
                        options = [get_money_bonus (10 * playerStage s),
                                   get_chosen_die offeredDieInChoice]\<rparr>\<rparr>)
      | E_choice_pick_die \<Rightarrow>
          (let (r, g1) = getRandomInt 1 6 g;
               (pool, g2) = shuffleArray (dPool r) g1;
               (numOffer, g3) = getRandomInt 3 4 g2
           in s\<lparr>gamePhase := awaiting_choice,
                choiceDetails :=
                  Some \<lparr>choice_kind = pick_a_die, options = pickOffers numOffer pool [] []\<rparr>\<rparr>)
      | _ \<Rightarrow> s)"

definition handleSquareLanding :: "game_state \<Rightarrow> rng \<Rightarrow> game_state" where
  "handleSquareLanding s g =
     (if isGameOver s \<or> (isAnimating s \<and> gamePhase s \<noteq> landed) then s
      else case arr_get (boardSquares s) (playerPosition s) of
             None \<Rightarrow> s\<lparr>gamePhase := rolling, isAnimating := False\<rparr>
           | Some sq \<Rightarrow>
               landingEffect (nat (playerPosition s)) sq
                 (if baseType sq = B_corner_br then s\<lparr>playerMoney := playerMoney s - 20\<rparr> else s)
                 g)"

definition playerMakesChoice :: "choice_option \<Rightarrow> game_state \<Rightarrow> game_state" where
  "playerMakesChoice chosenOption s =
     (if gamePhase s \<noteq> awaiting_choice \<or> choiceDetails s = None then s
      else
        (let oSI = playerPosition s;
             s1 = (case chosenOption of
                     get_money_bonus v \<Rightarrow> s\<lparr>isAnimating := True, playerMoney := playerMoney s + v\<rparr>
                   | get_chosen_die d \<Rightarrow> addReservedDie d (s\<lparr>isAnimating := True\<rparr>));
             s2 = (if 0 \<le> oSI \<and> oSI < int (length (boardSquares s1))
                   then s1\<lparr>boardSquares :=
                            (boardSquares s1)
                              [nat oSI := (boardSquares s1 ! nat oSI)
                                 \<lparr>currentEffectType := E_none, effectDetails := None\<rparr>]\<rparr>
                   else s1)
         in s2\<lparr>choiceDetails := None, gamePhase := rolling, isAnimating := False\<rparr>))"

subsection \<open>Boss encounter\<close>

definition handleBossEncounter :: "game_state \<Rightarrow> error + game_state" where
  "handleBossEncounter s =
     (case STAGE_CONFIGS (playerStage s) of
        None \<Rightarrow> Inl TypeError
      | Some stageConfig \<Rightarrow>
          (let b = \<lparr>boss_diceThrows = diceThrows (bossDefeatCondition stageConfig),
                    boss_hp = hp (bossDefeatCondition stageConfig),
                    boss_bribeCost = bribeCost (bossDefeatCondition stageConfig),
                    boss_image = bossImage stageConfig, boss_name = bossName stageConfig\<rparr>
           in Inr (s\<lparr>currentBoss := Some b, remainingBossRolls := boss_diceThrows b,
                     currentBossHP := Some (boss_hp b), currentBossMaxHP := Some (boss_hp b),
                     currentDiceThrows := [], gamePhase := boss_encounter,
                     isAnimating := False\<rparr>)))"

definition applyBossDamage :: "int \<Rightarrow> game_state \<Rightarrow> game_state" where
  "applyBossDamage totalDiceValue s =
     (case currentBossHP s of
        None \<Rightarrow> s
      | Some h \<Rightarrow> s\<lparr>currentBossHP := Some (h - totalDiceValue)\<rparr>)"

definition failBossFight :: "game_state \<Rightarrow> game_state" where
  "failBossFight s = s\<lparr>isGameOver := True, gamePhase := game_lost, showSummaryModal := True\<rparr>"

text \<open>
  The part of defeatBoss after the counters: the stage advances; beyond the last stage the
  function returns with isGameOver and showSummaryModal set, otherwise the next stage is
  set up.
\<close>

definition nextStage :: "game_state \<Rightarrow> rng \<Rightarrow> game_state" where
  "nextStage s g =
     (let s1 = s\<lparr>playerStage := playerStage s + 1\<rparr> in
      if playerStage s1 > MAX_STAGES
      then s1\<lparr>isGameOver := True, showSummaryModal := True\<rparr>
      else
        (let s2 = s1\<lparr>playerLap := 0, currentDiceThrows := [], remainingBossRolls := 0,
                     gamePhase := rolling\<rparr>
         in case STAGE_CONFIGS (playerStage s2) of
              None \<Rightarrow> s2
            | Some nextStageConfig \<Rightarrow>
                fst (setupStage (s2\<lparr>currentStageConfig := nextStageConfig\<rparr>) g)))"

definition defeatBoss :: "bool \<Rightarrow> game_state \<Rightarrow> rng \<Rightarrow> error + game_state" where
  "defeatBoss wasBribed s g =
     (if \<not> wasBribed then
        (let s1 = s\<lparr>bossesDefeated := bossesDefeated s + 1\<rparr>;
             totalDamage = sum_list (currentDiceThrows s1)
         in case currentBoss s1 of
              None \<Rightarrow> Inl TypeError
            | Some b \<Rightarrow>
                Inr (nextStage
                       (if totalDamage = boss_hp b
                        then s1\<lparr>perfectBossDefeats := perfectBossDefeats s1 + 1\<rparr> else s1) g))
      else Inr (nextStage s g))"

definition payToDefeatBoss :: "game_state \<Rightarrow> rng \<Rightarrow> error + game_state" where
  "payToDefeatBoss s g =
     (case currentBoss s of
        None \<Rightarrow> Inr s
      | Some b \<Rightarrow>
          (let bribe = boss_bribeCost b; currentMoney = playerMoney s in
           if currentMoney \<ge> bribe
           then defeatBoss True
                  (s\<lparr>playerMoney := playerMoney s - bribe, bribesBosses := bribesBosses s + 1\<rparr>) g
           else Inr s))"

text \<open>
  The end of a boss throw, shared by the boss branch of rollDice and by rollDiceForBoss:
  the total of the logged throws is compared with the boss's hp first; only a throw that
  does not reach it goes on to the check for defeat. (In rollDiceForBoss the second check
  also tests that the phase is still boss_encounter, which it is at that point.)
\<close>

definition resolveBossThrow :: "game_state \<Rightarrow> rng \<Rightarrow> error + game_state" where
  "resolveBossThrow s g =
     (let total = sum_list (currentDiceThrows s) in
      case currentBoss s of
        None \<Rightarrow> Inl TypeError
      | Some b \<Rightarrow>
          if total \<ge> boss_hp b then defeatBoss False s g
          else if gamePhase s = boss_encounter \<and> remainingBossRolls s = 0 \<and> reservedDice s = []
          then Inr (failBossFight s)
          else Inr s)"

text \<open>
  The argument of rollDiceForBoss is a die object, looked up in the bag by identity
  (\<^verbatim>\<open>indexOf\<close>). The dice of the bag are distinct objects, so the argument is either
  the object at some index of the bag or an object that is not in the bag.
\<close>

datatype die_ref = InBag nat | NotInBag die

definition removeAt :: "nat \<Rightarrow> 'a list \<Rightarrow> 'a list" where
  "removeAt i xs = take i xs @ drop (Suc i) xs"

definition bossRoll :: "die \<Rightarrow> rng \<Rightarrow> error + (int \<times> rng)" where
  "bossRoll d g =
     (case die_type d of
        D20 \<Rightarrow> Inr (getRandomInt 1 20 g)
      | FIXED \<Rightarrow> (case die_value d of None \<Rightarrow> Inl NotANumber | Some v \<Rightarrow> Inr (v, g))
      | REVERSE_FIXED \<Rightarrow> (case die_value d of None \<Rightarrow> Inl NotANumber | Some v \<Rightarrow> Inr (v, g))
      | REVERSE_RANDOM \<Rightarrow> Inr (getRandomInt 1 6 g)
      | NORMAL \<Rightarrow> Inr (getRandomInt 1 6 g))"

definition throwAtBoss :: "int \<Rightarrow> game_state \<Rightarrow> game_state" where
  "throwAtBoss roll s =
     applyBossDamage roll
       (s\<lparr>currentDiceThrows := currentDiceThrows s @ [roll], totalRolls := totalRolls s + 1\<rparr>)"

definition rollDiceForBoss :: "die_ref \<Rightarrow> game_state \<Rightarrow> rng \<Rightarrow> error + game_state" where
  "rollDiceForBoss dr s g =
     (if gamePhase s \<noteq> boss_encounter then Inr s
      else
        (case (case dr of
                 InBag i \<Rightarrow>
                   if i < length (reservedDice s)
                   then Some (reservedDice s ! i,
                              s\<lparr>reservedDice := removeAt i (reservedDice s)\<rparr>)
                   else None
               | NotInBag d \<Rightarrow> Some (d, s)) of
           None \<Rightarrow> Inl TypeError
         | Some (d, s1) \<Rightarrow>
             (case bossRoll d g of
                Inl e \<Rightarrow> Inl e
              | Inr (roll, g') \<Rightarrow> resolveBossThrow (throwAtBoss roll s1) g')))"

subsection \<open>Movement and the roll\<close>

text \<open>The remainder \<^verbatim>\<open>a % b\<close> of JavaScript on integers: \<^verbatim>\<open>NaN\<close> when \<open>b = 0\<close>.\<close>

definition js_rem :: "int \<Rightarrow> int \<Rightarrow> int option" where
  "js_rem a b = (if b = 0 then None else Some (sgn a * (\<bar>a\<bar> mod \<bar>b\<bar>)))"

datatype move_outcome = BossStarted game_state | MoveDone game_state bool rng

datatype step_outcome = Continue game_state | Leave move_outcome

text \<open>
  One iteration of the \<^verbatim>\<open>for\<close> loop of movePlayer. It either goes on to the next
  iteration, or leaves the loop: by \<^verbatim>\<open>break\<close> (the game is over, or index 0 was
  reached and the lap effects were set up again) or by \<^verbatim>\<open>return\<close> (the boss encounter
  began). \<open>MoveDone\<close> carries the value of \<^verbatim>\<open>passedStartThisTurn\<close>, which is written
  only in the branch for index 0.
\<close>

definition moveStep :: "int \<Rightarrow> game_state \<Rightarrow> rng \<Rightarrow> error + step_outcome" where
  "moveStep direction s g =
     (if isGameOver s then Inr (Leave (MoveDone s False g))
      else if direction > 0 then
        (case js_rem (playerPosition s + 1) (totalBoardSquares s) of
           None \<Rightarrow> Inl NotANumber
         | Some p \<Rightarrow>
             (let s1 = s\<lparr>playerPosition := p\<rparr> in
              if playerPosition s1 = 0 then
                (let s2 = s1\<lparr>playerLap := playerLap s1 + 1\<rparr> in
                 if playerLap s2 = lapsToComplete (currentStageConfig s2)
                 then (case handleBossEncounter
                              (s2\<lparr>gamePhase := boss_encounter, isAnimating := False\<rparr>) of
                         Inl e \<Rightarrow> Inl e
                       | Inr s3 \<Rightarrow> Inr (Leave (BossStarted s3)))
                 else (let (s3, g') = setupLapEffects s2 g in Inr (Leave (MoveDone s3 True g'))))
              else
                (case arr_get (boardSquares s1) (playerPosition s1) of
                   None \<Rightarrow> Inr (Continue s1)
                 | Some currentSq \<Rightarrow>
                     (case (currentEffectType currentSq, effectDetails currentSq) of
                        (E_normal_money, Some (Amount amount)) \<Rightarrow>
                          if amount \<noteq> 0
                          then Inr (Continue (s1\<lparr>playerMoney := playerMoney s1 + amount\<rparr>))
                          else Inr (Continue s1)
                      | _ \<Rightarrow> Inr (Continue s1)))))
      else
        (case js_rem (playerPosition s - 1 + totalBoardSquares s) (totalBoardSquares s) of
           None \<Rightarrow> Inl NotANumber
         | Some p \<Rightarrow> Inr (Continue (s\<lparr>playerPosition := p\<rparr>))))"

text \<open>The loop itself, with \<open>n\<close> iterations left.\<close>

fun moveLoop :: "nat \<Rightarrow> int \<Rightarrow> game_state \<Rightarrow> rng \<Rightarrow> error + move_outcome" where
  "moveLoop 0 direction s g = Inr (MoveDone s False g)"
| "moveLoop (Suc n) direction s g =
     (case moveStep direction s g of
        Inl e \<Rightarrow> Inl e
      | Inr (Continue s') \<Rightarrow> moveLoop n direction s' g
      | Inr (Leave out) \<Rightarrow> Inr out)"

text \<open>What movePlayer does once the loop has ended.\<close>

definition afterMove :: "game_state \<Rightarrow> bool \<Rightarrow> rng \<Rightarrow> error + game_state" where
  "afterMove s passedStartThisTurn g =
     (if passedStartThisTurn \<and> playerLap s = lapsToComplete (currentStageConfig s)
      then handleBossEncounter (s\<lparr>gamePhase := boss_encounter, isAnimating := False\<rparr>)
      else
        (let (s1, g1) = (if passedStartThisTurn then setupLapEffects s g else (s, g));
             s2 = handleSquareLanding (s1\<lparr>gamePhase := landed\<rparr>) g1
         in Inr (if gamePhase s2 = awaiting_choice then s2\<lparr>isAnimating := False\<rparr>
                 else if gamePhase s2 \<noteq> boss_encounter_intro \<and> \<not> isGameOver s2
                 then s2\<lparr>gamePhase := rolling, isAnimating := False\<rparr>
                 else if isGameOver s2 then s2\<lparr>isAnimating := False\<rparr>
                 else s2)))"

definition movePlayer :: "int \<Rightarrow> game_state \<Rightarrow> rng \<Rightarrow> error + game_state" where
  "movePlayer steps s g =
     (let totalStepsToTake = nat \<bar>steps\<bar>;
          direction = (if steps > 0 then 1 else - 1);
          s1 = s\<lparr>gamePhase := player_moving_animation,
                 lastPlayerPositionBeforeThisMove := playerPosition s\<rparr>
      in case moveLoop totalStepsToTake direction s1 g of
           Inl e \<Rightarrow> Inl e
         | Inr (BossStarted s2) \<Rightarrow> Inr s2
         | Inr (MoveDone s2 passedStartThisTurn g') \<Rightarrow> afterMove s2 passedStartThisTurn g')"

text \<open>The step count of a die in the rolling phase (the \<^verbatim>\<open>switch\<close> of rollDice).\<close>

definition rollSteps :: "die \<Rightarrow> rng \<Rightarrow> int \<times> rng" where
  "rollSteps dieToRoll g =
     (case die_type dieToRoll of
        NORMAL \<Rightarrow> getRandomInt 1 6 g
      | FIXED \<Rightarrow>
          ((case die_value dieToRoll of None \<Rightarrow> 1 | Some v \<Rightarrow> if v = 0 then 1 else v), g)
      | D20 \<Rightarrow> getRandomInt 1 20 g
      | REVERSE_FIXED \<Rightarrow>
          (- (case die_value dieToRoll of None \<Rightarrow> 1 | Some v \<Rightarrow> if v = 0 then 1 else v), g)
      | REVERSE_RANDOM \<Rightarrow> (let (r, g') = getRandomInt 1 6 g in (- r, g')))"

definition rollDice :: "int \<Rightarrow> game_state \<Rightarrow> rng \<Rightarrow> error + game_state" where
  "rollDice reservedDieIndex s g =
     (if gamePhase s = boss_encounter then
        (if remainingBossRolls s \<le> 0 then Inr s
         else
           (let (u, g') = Math_random g;
                roll = \<lceil>u * 6\<rceil>
            in resolveBossThrow
                 (throwAtBoss roll (s\<lparr>remainingBossRolls := remainingBossRolls s - 1\<rparr>)) g'))
      else if isGameOver s \<or> gamePhase s \<noteq> rolling \<or> isAnimating s then Inr s
      else
        (let s1 = s\<lparr>isAnimating := True, gamePhase := dice_rolling_animation\<rparr>;
             (dieToRoll, s2) =
               (if reservedDieIndex \<ge> 0 \<and> reservedDieIndex < int (length (reservedDice s1))
                then (reservedDice s1 ! nat reservedDieIndex,
                      s1\<lparr>reservedDice := removeAt (nat reservedDieIndex) (reservedDice s1)\<rparr>)
                else (\<lparr>die_type = NORMAL, die_value = None\<rparr>, s1));
             originalTypeForLastRoll = die_type dieToRoll;
             (steps, g') = rollSteps dieToRoll g;
             effectiveTypeForImage =
               (if steps < 0 then
                  (if originalTypeForLastRoll = NORMAL then REVERSE_RANDOM
                   else if originalTypeForLastRoll = FIXED then REVERSE_FIXED
                   else originalTypeForLastRoll)
                else originalTypeForLastRoll)
         in movePlayer steps
              (s2\<lparr>lastDiceRoll :=
                    Some \<lparr>roll_value = \<bar>steps\<bar>, roll_type = effectiveTypeForImage,
                          roll_originalType = originalTypeForLastRoll,
                          roll_direction = (if steps \<ge> 0 then forward else backward)\<rparr>\<rparr>) g'))"

text \<open>advanceStage: no action of the store and no component calls it.\<close>

definition advanceStage :: "game_state \<Rightarrow> rng \<Rightarrow> game_state" where
  "advanceStage s g =
     (let s1 = s\<lparr>playerStage := playerStage s + 1\<rparr> in
      if playerStage s1 > MAX_STAGES
      then s1\<lparr>isGameOver := True, gamePhase := game_won, isAnimating := False\<rparr>
      else fst (setupStage s1 g))"

subsection \<open>Sample states\<close>

text \<open>
  The value of the store's \<^verbatim>\<open>state()\<close>, the states of a boss encounter built from it by
  handleBossEncounter, and a constant random stream, for the concrete runs below.
\<close>

definition initialState :: game_state where
  "initialState =
     \<lparr>boardRows = 0, boardCols = 0, playerPosition = 0, playerMoney = 0, playerLap = 1,
      playerStage = 1, lastDiceRoll = None, reservedDice = [], maxDiceInBag = MAX_RESERVED_DICE,
      boardSquares = [], isGameOver = False, gamePhase = rolling, choiceDetails = None,
      isAnimating = False, lastPlayerPositionBeforeThisMove = 0, currentBoss = None,
      currentDiceThrows = [], remainingBossRolls = 0, currentBossHP = None,
      currentBossMaxHP = None, totalRolls = 0, diceObtained = 0, bossesDefeated = 0,
      perfectBossDefeats = 0, bribesBosses = 0, showSummaryModal = False,
      currentStageConfig = stage1\<rparr>"

definition constRng :: "real \<Rightarrow> rng" where
  "constRng u n = u"

definition fixedDie :: "int \<Rightarrow> die" where
  "fixedDie v = \<lparr>die_type = FIXED, die_value = Some v\<rparr>"

definition bossState :: "int \<Rightarrow> int list \<Rightarrow> int \<Rightarrow> die list \<Rightarrow> int \<Rightarrow> game_state" where
  "bossState stage throws budget bag money =
     (case handleBossEncounter (initialState\<lparr>playerStage := stage, playerMoney := money, reservedDice := bag\<rparr>) of
        Inl e \<Rightarrow> initialState
      | Inr s \<Rightarrow> s\<lparr>currentDiceThrows := throws, remainingBossRolls := budget,
                   currentBossHP := Some (the (currentBossHP s) - sum_list throws)\<rparr>)"

subsection \<open>What the claims say about money on the way\<close>

text \<open>
  The amount a square awards to a player who steps on it going forward, as the claim
  about normal_money squares states it: the amount of a normal_money square, nothing for
  any other square. \<open>moneyAlong b p n\<close> adds it up over the \<open>n\<close> squares after index \<open>p\<close>.
\<close>

definition passAward :: "square \<Rightarrow> int" where
  "passAward sq =
     (case (currentEffectType sq, effectDetails sq) of
        (E_normal_money, Some (Amount a)) \<Rightarrow> a
      | _ \<Rightarrow> 0)"

fun moneyAlong :: "square list \<Rightarrow> int \<Rightarrow> nat \<Rightarrow> int" where
  "moneyAlong b p 0 = 0"
| "moneyAlong b p (Suc n) =
     (case arr_get b (p + 1) of None \<Rightarrow> 0 | Some sq \<Rightarrow> passAward sq) + moneyAlong b (p + 1) n"

text \<open>
  A stage-1 board on which every square that is not a corner is a normal_money square
  worth 2, with the player on index \<open>p\<close>.
\<close>

definition payNormal :: "square \<Rightarrow> square" where
  "payNormal sq =
     (if baseType sq = B_normal
      then sq\<lparr>currentEffectType := E_normal_money, effectDetails := Some (Amount 2)\<rparr> else sq)"

definition moneyBoardState :: "int \<Rightarrow> game_state" where
  "moneyBoardState p =
     (generateBoardLayout initialState)
       \<lparr>boardSquares := map payNormal (boardSquares (generateBoardLayout initialState)),
        playerPosition := p\<rparr>"

text \<open>
  What a move can change: the position, the money, the lap, the board, the phase, the
  pending choice, the animation flag and, when it ends in a boss encounter, the boss.
\<close>

definition moved :: "game_state \<Rightarrow> game_state \<Rightarrow> bool" where
  "moved s s' \<longleftrightarrow>
     (\<exists>q0 q m l b ph cd an cb rb h mh th.
        s' = s\<lparr>lastPlayerPositionBeforeThisMove := q0, playerPosition := q, playerMoney := m,
               playerLap := l, boardSquares := b, gamePhase := ph, choiceDetails := cd,
               isAnimating := an, currentBoss := cb, remainingBossRolls := rb,
               currentBossHP := h, currentBossMaxHP := mh, currentDiceThrows := th\<rparr>)"

text \<open>The state after the first initializeGame, and the same with the player on index \<open>p\<close>.\<close>

definition startedGame :: game_state where
  "startedGame = initializeGame initialState (constRng 0)"

definition startedGameAt :: "int \<Rightarrow> game_state" where
  "startedGameAt p = startedGame\<lparr>playerPosition := p\<rparr>"

subsection \<open>The commands of the user interface\<close>

text \<open>
  The actions that the components call on the store (App, GameView, ReservedDiceDisplay,
  ChoiceModal, GameBoard, SummaryModal), each with the random numbers it draws.
  toggleAnimationSpeed and the two highlight actions only write display fields.
\<close>

datatype command =
  InitializeGame | RollDice int | RollDiceForBoss die_ref | PlayerMakesChoice choice_option
  | PayToDefeatBoss | ResetGame

definition step :: "command \<Rightarrow> game_state \<Rightarrow> rng \<Rightarrow> error + game_state" where
  "step c s g =
     (case c of
        InitializeGame \<Rightarrow> Inr (initializeGame s g)
      | RollDice i \<Rightarrow> rollDice i s g
      | RollDiceForBoss dr \<Rightarrow> rollDiceForBoss dr s g
      | PlayerMakesChoice chosenOption \<Rightarrow> Inr (playerMakesChoice chosenOption s)
      | PayToDefeatBoss \<Rightarrow> payToDefeatBoss s g
      | ResetGame \<Rightarrow> Inr (resetGame s g))"

fun run :: "(command \<times> rng) list \<Rightarrow> game_state \<Rightarrow> error + game_state" where
  "run [] s = Inr s"
| "run ((c, g) # cs) s = (case step c s g of Inl e \<Rightarrow> Inl e | Inr s' \<Rightarrow> run cs s')"

text \<open>
  The boss HP that GameBoard displays agrees with the log of throws; and during an
  encounter there is a boss.
\<close>

definition bossHpInSync :: "game_state \<Rightarrow> bool" where
  "bossHpInSync s =
     (case (currentBossMaxHP s, currentBossHP s) of
        (Some m, Some h) \<Rightarrow> h = m - sum_list (currentDiceThrows s)
      | _ \<Rightarrow> False)"

definition encounterInv :: "game_state \<Rightarrow> bool" where
  "encounterInv s = (gamePhase s = boss_encounter \<longrightarrow> currentBoss s \<noteq> None \<and> bossHpInSync s)"

subsection \<open>What the claims say about the lap effects\<close>

text \<open>
  The number of squares of a board whose effect is one of \<open>es\<close>; the squares of a board
  are numbered by their index and only candidate squares carry an effect; the quota
  bounds of a stage are ordered.
\<close>

definition countEffects :: "effect_type list \<Rightarrow> square list \<Rightarrow> nat" where
  "countEffects es b = length (filter (\<lambda>sq. currentEffectType sq \<in> set es) b)"

definition boardWellFormed :: "game_state \<Rightarrow> bool" where
  "boardWellFormed s \<longleftrightarrow>
     map sq_id (boardSquares s) = map int [0 ..< length (boardSquares s)] \<and>
     list_all (\<lambda>sq. (baseType sq = B_normal \<and> sq_id sq \<notin> set (cornerSquareIds s)) \<or>
                     currentEffectType sq = E_none) (boardSquares s)"

definition quotasOrdered :: "StageConfig \<Rightarrow> bool" where
  "quotasOrdered config \<longleftrightarrow>
     0 \<le> minBadSquares config \<and> minBadSquares config \<le> maxBadSquares config \<and>
     0 \<le> minChoiceDiceMoneySquares config \<and>
     minChoiceDiceMoneySquares config \<le> maxChoiceDiceMoneySquares config \<and>
     0 \<le> minChoicePickDieSquares config \<and>
     minChoicePickDieSquares config \<le> maxChoicePickDieSquares config"

text \<open>
  For the proofs: \<open>assigned es ks b b'\<close> says that \<open>b'\<close> is \<open>b\<close> with the squares at the
  indices \<open>ks\<close> rewritten, one after the other, each keeping its id and base type and
  getting an effect among \<open>es\<close>.
\<close>

inductive assigned :: "effect_type list \<Rightarrow> nat list \<Rightarrow> square list \<Rightarrow> square list \<Rightarrow> bool" where
  assigned_Nil: "assigned es [] b b"
| assigned_Cons:
    "k < length b \<Longrightarrow> sq_id x = sq_id (b ! k) \<Longrightarrow> baseType x = baseType (b ! k) \<Longrightarrow>
     currentEffectType x \<in> set es \<Longrightarrow> assigned es ks (b[k := x]) b' \<Longrightarrow>
     assigned es (k # ks) b b'"

text \<open>
  What every call of setupLapEffects relies on: a well-formed board and ordered quotas.
\<close>

definition lapInv :: "game_state \<Rightarrow> bool" where
  "lapInv s \<longleftrightarrow> boardWellFormed s \<and> quotasOrdered (currentStageConfig s)"

text \<open>The same for the two ways the movement loop ends, with the random stream it hands on.\<close>

fun outcomeInv :: "move_outcome \<Rightarrow> bool" where
  "outcomeInv (BossStarted s) = lapInv s"
| "outcomeInv (MoveDone s passedStartThisTurn g) = (lapInv s \<and> valid_rng g)"

section \<open>Properties\<close>

lemmas sample_defs = bossState_def initialState_def handleBossEncounter_def STAGE_CONFIGS_def
  stage1_def stage5_def Let_def constRng_def fixedDie_def bossRoll_def

subsection \<open>What the stage set-up leaves alone\<close>

lemma setupLapEffects_board:
  "\<exists>b g'. setupLapEffects s g = (s\<lparr>boardSquares := b\<rparr>, g')"
  by (auto simp add: setupLapEffects_def Let_def split: prod.splits)

lemma setupStage_board:
  "\<exists>b g'. setupStage s g =
     (s\<lparr>boardRows := rows (currentStageConfig s), boardCols := cols (currentStageConfig s),
        playerLap := 1, playerPosition := 0, lastPlayerPositionBeforeThisMove := 0,
        lastDiceRoll := None, choiceDetails := None, boardSquares := b,
        gamePhase := rolling, isAnimating := False\<rparr>, g')"
proof -
  define s1 where "s1 = s\<lparr>boardRows := rows (currentStageConfig s), boardCols := cols (currentStageConfig s),
        playerLap := 1, playerPosition := 0, lastPlayerPositionBeforeThisMove := 0,
        lastDiceRoll := None, choiceDetails := None\<rparr>"
  obtain b g' where e: "setupLapEffects (generateBoardLayout s1) g = ((generateBoardLayout s1)\<lparr>boardSquares := b\<rparr>, g')"
    using setupLapEffects_board by blast
  have "setupStage s g = ((generateBoardLayout s1)\<lparr>boardSquares := b\<rparr>\<lparr>gamePhase := rolling, isAnimating := False\<rparr>, g')"
    unfolding setupStage_def Let_def s1_def[symmetric] e by simp
  then have "setupStage s g =
     (s\<lparr>boardRows := rows (currentStageConfig s), boardCols := cols (currentStageConfig s),
        playerLap := 1, playerPosition := 0, lastPlayerPositionBeforeThisMove := 0,
        lastDiceRoll := None, choiceDetails := None, boardSquares := b,
        gamePhase := rolling, isAnimating := False\<rparr>, g')"
    by (simp add: generateBoardLayout_def s1_def)
  then show ?thesis by blast
qed


lemma nextStage_last:
  "playerStage s + 1 > MAX_STAGES \<Longrightarrow>
     nextStage s g = s\<lparr>playerStage := playerStage s + 1, isGameOver := True, showSummaryModal := True\<rparr>"
  by (simp add: nextStage_def Let_def)

lemma nextStage_shape:
  assumes "\<not> playerStage s + 1 > MAX_STAGES"
  shows "\<exists>c r k b. nextStage s g =
     s\<lparr>playerStage := playerStage s + 1, playerLap := 0, currentDiceThrows := [],
       remainingBossRolls := 0, gamePhase := rolling, currentStageConfig := c,
       boardRows := r, boardCols := k, playerLap := 1, playerPosition := 0,
       lastPlayerPositionBeforeThisMove := 0, lastDiceRoll := None, choiceDetails := None,
       boardSquares := b, gamePhase := rolling, isAnimating := False\<rparr> \<or>
     nextStage s g =
     s\<lparr>playerStage := playerStage s + 1, playerLap := 0, currentDiceThrows := [],
       remainingBossRolls := 0, gamePhase := rolling\<rparr>"
proof (cases "STAGE_CONFIGS (playerStage s + 1)")
  case None
  with assms show ?thesis by (simp add: nextStage_def Let_def)
next
  case (Some c)
  define s2 where "s2 = s\<lparr>playerStage := playerStage s + 1, playerLap := 0, currentDiceThrows := [],
       remainingBossRolls := 0, gamePhase := rolling, currentStageConfig := c\<rparr>"
  obtain b g' where e: "setupStage s2 g =
     (s2\<lparr>boardRows := rows (currentStageConfig s2), boardCols := cols (currentStageConfig s2),
        playerLap := 1, playerPosition := 0, lastPlayerPositionBeforeThisMove := 0,
        lastDiceRoll := None, choiceDetails := None, boardSquares := b,
        gamePhase := rolling, isAnimating := False\<rparr>, g')"
    using setupStage_board by blast
  have "nextStage s g = fst (setupStage s2 g)"
    using assms Some by (simp add: nextStage_def Let_def s2_def)
  then have "nextStage s g = s2\<lparr>boardRows := rows (currentStageConfig s2), boardCols := cols (currentStageConfig s2),
        playerLap := 1, playerPosition := 0, lastPlayerPositionBeforeThisMove := 0,
        lastDiceRoll := None, choiceDetails := None, boardSquares := b,
        gamePhase := rolling, isAnimating := False\<rparr>"
    by (simp add: e)
  then have "nextStage s g = s\<lparr>playerStage := playerStage s + 1, playerLap := 0, currentDiceThrows := [],
       remainingBossRolls := 0, gamePhase := rolling, currentStageConfig := c,
       boardRows := rows c, boardCols := cols c, playerLap := 1, playerPosition := 0,
       lastPlayerPositionBeforeThisMove := 0, lastDiceRoll := None, choiceDetails := None,
       boardSquares := b, gamePhase := rolling, isAnimating := False\<rparr>"
    by (simp add: s2_def)
  then show ?thesis by blast
qed

lemma nextStage_fields:
  "playerMoney (nextStage s g) = playerMoney s"
  "bribesBosses (nextStage s g) = bribesBosses s"
  "bossesDefeated (nextStage s g) = bossesDefeated s"
  "perfectBossDefeats (nextStage s g) = perfectBossDefeats s"
  "playerStage (nextStage s g) = playerStage s + 1"
  "reservedDice (nextStage s g) = reservedDice s"
  "totalRolls (nextStage s g) = totalRolls s"
  "currentBoss (nextStage s g) = currentBoss s"
  "currentBossHP (nextStage s g) = currentBossHP s"
  "currentBossMaxHP (nextStage s g) = currentBossMaxHP s"
  using nextStage_last[of s g] nextStage_shape[of s g]
  by (cases "playerStage s + 1 > MAX_STAGES"; auto)+


subsection \<open>Boss resolution\<close>

lemma throwAtBoss_eq:
  "throwAtBoss r s =
     s\<lparr>currentDiceThrows := currentDiceThrows s @ [r], totalRolls := totalRolls s + 1,
       currentBossHP := map_option (\<lambda>h. h - r) (currentBossHP s)\<rparr>"
  by (cases "currentBossHP s") (simp_all add: throwAtBoss_def applyBossDamage_def)

lemma defeatBoss_damage:
  assumes "currentBoss s = Some b"
  shows "\<exists>s'. defeatBoss False s g = Inr s' \<and>
           bossesDefeated s' = bossesDefeated s + 1 \<and>
           perfectBossDefeats s' =
             perfectBossDefeats s + (if sum_list (currentDiceThrows s) = boss_hp b then 1 else 0) \<and>
           bribesBosses s' = bribesBosses s \<and> playerStage s' = playerStage s + 1 \<and>
           playerMoney s' = playerMoney s"
  using assms by (simp add: defeatBoss_def Let_def nextStage_fields)

lemma defeatBoss_bribed:
  "\<exists>s'. defeatBoss True s g = Inr s' \<and> bossesDefeated s' = bossesDefeated s \<and>
         perfectBossDefeats s' = perfectBossDefeats s \<and> bribesBosses s' = bribesBosses s \<and>
         playerStage s' = playerStage s + 1 \<and> playerMoney s' = playerMoney s"
  by (simp add: defeatBoss_def nextStage_fields)

lemma nextStage_phase:
  "gamePhase (nextStage s g) = (if playerStage s + 1 > MAX_STAGES then gamePhase s else rolling)"
  "isGameOver (nextStage s g) = (if playerStage s + 1 > MAX_STAGES then True else isGameOver s)"
  "showSummaryModal (nextStage s g) =
     (if playerStage s + 1 > MAX_STAGES then True else showSummaryModal s)"
  using nextStage_last[of s g] nextStage_shape[of s g]
  by (cases "playerStage s + 1 > MAX_STAGES"; auto)+

lemma defeatBoss_phase:
  assumes "currentBoss s = Some b" "gamePhase s \<noteq> game_lost"
  shows "\<exists>s'. defeatBoss False s g = Inr s' \<and> gamePhase s' \<noteq> game_lost"
  using assms by (simp add: defeatBoss_def Let_def nextStage_phase)

lemma resolveBossThrow_win:
  assumes "currentBoss s = Some b" "boss_hp b \<le> sum_list (currentDiceThrows s)"
  shows "resolveBossThrow s g = defeatBoss False s g"
  using assms by (simp add: resolveBossThrow_def Let_def)

lemma resolveBossThrow_miss:
  assumes "currentBoss s = Some b" "sum_list (currentDiceThrows s) < boss_hp b"
  shows "resolveBossThrow s g =
           Inr (if gamePhase s = boss_encounter \<and> remainingBossRolls s = 0 \<and> reservedDice s = []
                then failBossFight s else s)"
  using assms by (simp add: resolveBossThrow_def Let_def)

lemma rollDice_boss:
  assumes "gamePhase s = boss_encounter" "0 < remainingBossRolls s"
  shows "rollDice i s g =
           resolveBossThrow
             (throwAtBoss \<lceil>g 0 * 6\<rceil> (s\<lparr>remainingBossRolls := remainingBossRolls s - 1\<rparr>)) (rng_tl g)"
  using assms by (simp add: rollDice_def Math_random_def Let_def)

lemma rollDiceForBoss_bag:
  assumes "gamePhase s = boss_encounter" "k < length (reservedDice s)"
    "bossRoll (reservedDice s ! k) g = Inr (r, g')"
  shows "rollDiceForBoss (InBag k) s g =
           resolveBossThrow (throwAtBoss r (s\<lparr>reservedDice := removeAt k (reservedDice s)\<rparr>)) g'"
  using assms by (simp add: rollDiceForBoss_def)

lemma resolveBossThrow_victory:
  assumes "currentBoss t = Some b" "boss_hp b \<le> sum_list (currentDiceThrows t)"
  shows "\<exists>s'. resolveBossThrow t h = Inr s' \<and> defeatBoss False t h = Inr s' \<and>
           bossesDefeated s' = bossesDefeated t + 1 \<and>
           perfectBossDefeats s' =
             perfectBossDefeats t + (if sum_list (currentDiceThrows t) = boss_hp b then 1 else 0) \<and>
           playerStage s' = playerStage t + 1 \<and>
           (gamePhase t \<noteq> game_lost \<longrightarrow> gamePhase s' \<noteq> game_lost)"
proof -
  have e: "resolveBossThrow t h = defeatBoss False t h"
    using assms by (rule resolveBossThrow_win)
  obtain s1 where s1: "defeatBoss False t h = Inr s1" "bossesDefeated s1 = bossesDefeated t + 1"
      "perfectBossDefeats s1 =
         perfectBossDefeats t + (if sum_list (currentDiceThrows t) = boss_hp b then 1 else 0)"
      "playerStage s1 = playerStage t + 1"
    using defeatBoss_damage[OF assms(1), of h] by blast
  have "gamePhase t \<noteq> game_lost \<longrightarrow> gamePhase s1 \<noteq> game_lost"
    using defeatBoss_phase[OF assms(1), of h] s1(1) by auto
  with e s1 show ?thesis by simp
qed

text \<open>
  C7. The bribe (payToDefeatBoss) goes through only when playerMoney is at least the
  boss's bribeCost. Then exactly bribeCost is taken from playerMoney and bribesBosses
  grows by one, while bossesDefeated and perfectBossDefeats keep their values. With less
  money, or with no boss, the state stays as it was.
\<close>

theorem payToDefeatBoss_bribe:
  "case currentBoss s of
     None \<Rightarrow> payToDefeatBoss s g = Inr s
   | Some b \<Rightarrow>
       (playerMoney s < boss_bribeCost b \<longrightarrow> payToDefeatBoss s g = Inr s) \<and>
       (boss_bribeCost b \<le> playerMoney s \<longrightarrow>
          (\<exists>s'. payToDefeatBoss s g = Inr s' \<and>
                playerMoney s' = playerMoney s - boss_bribeCost b \<and>
                bribesBosses s' = bribesBosses s + 1 \<and>
                bossesDefeated s' = bossesDefeated s \<and>
                perfectBossDefeats s' = perfectBossDefeats s))"
proof (cases "currentBoss s")
  case None
  then show ?thesis by (simp add: payToDefeatBoss_def)
next
  case (Some b)
  define s1 where "s1 = s\<lparr>playerMoney := playerMoney s - boss_bribeCost b, bribesBosses := bribesBosses s + 1\<rparr>"
  obtain s' where "defeatBoss True s1 g = Inr s'" "bossesDefeated s' = bossesDefeated s1"
         "perfectBossDefeats s' = perfectBossDefeats s1" "bribesBosses s' = bribesBosses s1"
         "playerMoney s' = playerMoney s1"
    using defeatBoss_bribed[of s1 g] by blast
  then show ?thesis
    using Some by (simp add: payToDefeatBoss_def Let_def s1_def)
qed

theorem payToDefeatBoss_bribe_witness:
  "payToDefeatBoss (bossState 1 [] 3 [] 39) (constRng 0) = Inr (bossState 1 [] 3 [] 39) \<and>
   (\<exists>s'. payToDefeatBoss (bossState 1 [] 3 [] 50) (constRng 0) = Inr s' \<and> playerMoney s' = 10 \<and>
      bribesBosses s' = 1 \<and> bossesDefeated s' = 0 \<and> perfectBossDefeats s' = 0)"
  using payToDefeatBoss_bribe[of "bossState 1 [] 3 [] 39" "constRng 0"]
        payToDefeatBoss_bribe[of "bossState 1 [] 3 [] 50" "constRng 0"]
  by (simp add: bossState_def initialState_def handleBossEncounter_def STAGE_CONFIGS_def stage1_def Let_def)

text \<open>
  C1. In a boss encounter, a throw after which the logged throws add up to at least the
  boss's hp is a victory by damage, for the free die of rollDice and for a die of the bag
  thrown with rollDiceForBoss alike: the call returns what defeatBoss returns on the state
  right after the throw, so the check for defeat is never reached. Nothing is asked of
  the budget or the bag after the throw: a last hit that reaches hp wins with no throw
  and no die left.
\<close>

theorem victory_checked_before_defeat:
  assumes "gamePhase s = boss_encounter" and "currentBoss s = Some b"
  shows
    "(0 < remainingBossRolls s \<longrightarrow> boss_hp b \<le> sum_list (currentDiceThrows s) + \<lceil>g 0 * 6\<rceil> \<longrightarrow>
       (\<exists>s'. rollDice i s g = Inr s' \<and>
             defeatBoss False
               (throwAtBoss \<lceil>g 0 * 6\<rceil> (s\<lparr>remainingBossRolls := remainingBossRolls s - 1\<rparr>))
               (rng_tl g) = Inr s' \<and>
             bossesDefeated s' = bossesDefeated s + 1 \<and> playerStage s' = playerStage s + 1 \<and>
             gamePhase s' \<noteq> game_lost)) \<and>
     (k < length (reservedDice s) \<longrightarrow> bossRoll (reservedDice s ! k) g = Inr (r, g') \<longrightarrow>
      boss_hp b \<le> sum_list (currentDiceThrows s) + r \<longrightarrow>
       (\<exists>s'. rollDiceForBoss (InBag k) s g = Inr s' \<and>
             defeatBoss False
               (throwAtBoss r (s\<lparr>reservedDice := removeAt k (reservedDice s)\<rparr>)) g' = Inr s' \<and>
             bossesDefeated s' = bossesDefeated s + 1 \<and> playerStage s' = playerStage s + 1 \<and>
             gamePhase s' \<noteq> game_lost))"
proof (intro conjI impI)
  assume a: "0 < remainingBossRolls s" "boss_hp b \<le> sum_list (currentDiceThrows s) + \<lceil>g 0 * 6\<rceil>"
  define t where "t = throwAtBoss \<lceil>g 0 * 6\<rceil> (s\<lparr>remainingBossRolls := remainingBossRolls s - 1\<rparr>)"
  have t: "currentBoss t = Some b" "boss_hp b \<le> sum_list (currentDiceThrows t)"
    "gamePhase t \<noteq> game_lost" "bossesDefeated t = bossesDefeated s" "playerStage t = playerStage s"
    using assms a(2) by (simp_all add: t_def throwAtBoss_eq)
  have "rollDice i s g = resolveBossThrow t (rng_tl g)"
    unfolding t_def using assms(1) a(1) by (rule rollDice_boss)
  with resolveBossThrow_victory[OF t(1,2), of "rng_tl g"] t(3,4,5)
  show "\<exists>s'. rollDice i s g = Inr s' \<and> defeatBoss False t (rng_tl g) = Inr s' \<and>
             bossesDefeated s' = bossesDefeated s + 1 \<and> playerStage s' = playerStage s + 1 \<and>
             gamePhase s' \<noteq> game_lost"
    by auto
next
  assume a: "k < length (reservedDice s)" "bossRoll (reservedDice s ! k) g = Inr (r, g')"
    "boss_hp b \<le> sum_list (currentDiceThrows s) + r"
  define t where "t = throwAtBoss r (s\<lparr>reservedDice := removeAt k (reservedDice s)\<rparr>)"
  have t: "currentBoss t = Some b" "boss_hp b \<le> sum_list (currentDiceThrows t)"
    "gamePhase t \<noteq> game_lost" "bossesDefeated t = bossesDefeated s" "playerStage t = playerStage s"
    using assms a(3) by (simp_all add: t_def throwAtBoss_eq)
  have "rollDiceForBoss (InBag k) s g = resolveBossThrow t g'"
    unfolding t_def using assms(1) a(1,2) by (rule rollDiceForBoss_bag)
  with resolveBossThrow_victory[OF t(1,2), of g'] t(3,4,5)
  show "\<exists>s'. rollDiceForBoss (InBag k) s g = Inr s' \<and> defeatBoss False t g' = Inr s' \<and>
             bossesDefeated s' = bossesDefeated s + 1 \<and> playerStage s' = playerStage s + 1 \<and>
             gamePhase s' \<noteq> game_lost"
    by auto
qed

theorem victory_checked_before_defeat_witness:
  "(\<exists>s'. rollDice (- 1) (bossState 1 [6, 6] 1 [] 0) (constRng (1 / 2)) = Inr s' \<and>
         bossesDefeated s' = 1 \<and> playerStage s' = 2 \<and> gamePhase s' \<noteq> game_lost) \<and>
   (\<exists>s'. rollDiceForBoss (InBag 0) (bossState 1 [6, 6] 0 [fixedDie 4] 0) (constRng 0) = Inr s' \<and>
         bossesDefeated s' = 1 \<and> playerStage s' = 2 \<and> gamePhase s' \<noteq> game_lost)"
proof -
  have a: "gamePhase (bossState 1 [6, 6] 1 [] 0) = boss_encounter"
    "currentBoss (bossState 1 [6, 6] 1 [] 0) = Some (the (currentBoss (bossState 1 [6, 6] 1 [] 0)))"
    "0 < remainingBossRolls (bossState 1 [6, 6] 1 [] 0)"
    "boss_hp (the (currentBoss (bossState 1 [6, 6] 1 [] 0)))
       \<le> sum_list (currentDiceThrows (bossState 1 [6, 6] 1 [] 0)) + \<lceil>constRng (1 / 2) 0 * 6\<rceil>"
    "bossesDefeated (bossState 1 [6, 6] 1 [] 0) = 0" "playerStage (bossState 1 [6, 6] 1 [] 0) = 1"
    by (simp_all add: sample_defs)
  have b: "gamePhase (bossState 1 [6, 6] 0 [fixedDie 4] 0) = boss_encounter"
    "currentBoss (bossState 1 [6, 6] 0 [fixedDie 4] 0) =
       Some (the (currentBoss (bossState 1 [6, 6] 0 [fixedDie 4] 0)))"
    "0 < length (reservedDice (bossState 1 [6, 6] 0 [fixedDie 4] 0))"
    "bossRoll (reservedDice (bossState 1 [6, 6] 0 [fixedDie 4] 0) ! 0) (constRng 0) = Inr (4, constRng 0)"
    "boss_hp (the (currentBoss (bossState 1 [6, 6] 0 [fixedDie 4] 0)))
       \<le> sum_list (currentDiceThrows (bossState 1 [6, 6] 0 [fixedDie 4] 0)) + 4"
    "bossesDefeated (bossState 1 [6, 6] 0 [fixedDie 4] 0) = 0"
    "playerStage (bossState 1 [6, 6] 0 [fixedDie 4] 0) = 1"
    by (simp_all add: sample_defs)
  from victory_checked_before_defeat[OF a(1,2), where g = "constRng (1 / 2)" and i = "- 1"] a(3,4)
  have "\<exists>s'. rollDice (- 1) (bossState 1 [6, 6] 1 [] 0) (constRng (1 / 2)) = Inr s' \<and>
          bossesDefeated s' = bossesDefeated (bossState 1 [6, 6] 1 [] 0) + 1 \<and>
          playerStage s' = playerStage (bossState 1 [6, 6] 1 [] 0) + 1 \<and> gamePhase s' \<noteq> game_lost"
    by blast
  moreover
  from victory_checked_before_defeat[OF b(1,2), where g = "constRng 0" and k = 0 and r = 4
      and g' = "constRng 0"] b(3,4,5)
  have "\<exists>s'. rollDiceForBoss (InBag 0) (bossState 1 [6, 6] 0 [fixedDie 4] 0) (constRng 0) = Inr s' \<and>
          bossesDefeated s' = bossesDefeated (bossState 1 [6, 6] 0 [fixedDie 4] 0) + 1 \<and>
          playerStage s' = playerStage (bossState 1 [6, 6] 0 [fixedDie 4] 0) + 1 \<and>
          gamePhase s' \<noteq> game_lost"
    by blast
  ultimately show ?thesis
    unfolding a(5,6) b(6,7) by simp
qed


text \<open>
  C8. Every victory by damage (defeatBoss without the bribe flag, reached from rollDice
  or rollDiceForBoss by a throw that brings the total to the boss's hp or more) adds one
  to bossesDefeated, and adds one to perfectBossDefeats exactly when the total of the
  logged throws equals the boss's hp.
\<close>

theorem damage_victory_counters:
  assumes "currentBoss s = Some b"
  shows
    "(\<exists>s'. defeatBoss False s g = Inr s' \<and> bossesDefeated s' = bossesDefeated s + 1 \<and>
          perfectBossDefeats s' =
            perfectBossDefeats s + (if sum_list (currentDiceThrows s) = boss_hp b then 1 else 0)) \<and>
     (gamePhase s = boss_encounter \<longrightarrow> 0 < remainingBossRolls s \<longrightarrow>
      boss_hp b \<le> sum_list (currentDiceThrows s) + \<lceil>g 0 * 6\<rceil> \<longrightarrow>
       (\<exists>s'. rollDice i s g = Inr s' \<and> bossesDefeated s' = bossesDefeated s + 1 \<and>
             perfectBossDefeats s' =
               perfectBossDefeats s +
                 (if sum_list (currentDiceThrows s) + \<lceil>g 0 * 6\<rceil> = boss_hp b then 1 else 0))) \<and>
     (gamePhase s = boss_encounter \<longrightarrow> k < length (reservedDice s) \<longrightarrow>
      bossRoll (reservedDice s ! k) g = Inr (r, g') \<longrightarrow>
      boss_hp b \<le> sum_list (currentDiceThrows s) + r \<longrightarrow>
       (\<exists>s'. rollDiceForBoss (InBag k) s g = Inr s' \<and> bossesDefeated s' = bossesDefeated s + 1 \<and>
             perfectBossDefeats s' =
               perfectBossDefeats s +
                 (if sum_list (currentDiceThrows s) + r = boss_hp b then 1 else 0)))"
proof (intro conjI impI)
  show "\<exists>s'. defeatBoss False s g = Inr s' \<and> bossesDefeated s' = bossesDefeated s + 1 \<and>
          perfectBossDefeats s' =
            perfectBossDefeats s + (if sum_list (currentDiceThrows s) = boss_hp b then 1 else 0)"
    using defeatBoss_damage[OF assms, of g] by blast
next
  assume a: "gamePhase s = boss_encounter" "0 < remainingBossRolls s"
    "boss_hp b \<le> sum_list (currentDiceThrows s) + \<lceil>g 0 * 6\<rceil>"
  define t where "t = throwAtBoss \<lceil>g 0 * 6\<rceil> (s\<lparr>remainingBossRolls := remainingBossRolls s - 1\<rparr>)"
  have t: "currentBoss t = Some b" "boss_hp b \<le> sum_list (currentDiceThrows t)"
    and u: "bossesDefeated t = bossesDefeated s" "perfectBossDefeats t = perfectBossDefeats s"
    "sum_list (currentDiceThrows t) = sum_list (currentDiceThrows s) + \<lceil>g 0 * 6\<rceil>"
    using assms a(3) by (simp_all add: t_def throwAtBoss_eq)
  have "rollDice i s g = resolveBossThrow t (rng_tl g)"
    unfolding t_def using a(1,2) by (rule rollDice_boss)
  with resolveBossThrow_victory[OF t, of "rng_tl g"]
  show "\<exists>s'. rollDice i s g = Inr s' \<and> bossesDefeated s' = bossesDefeated s + 1 \<and>
             perfectBossDefeats s' =
               perfectBossDefeats s +
                 (if sum_list (currentDiceThrows s) + \<lceil>g 0 * 6\<rceil> = boss_hp b then 1 else 0)"
    unfolding u by auto
next
  assume a: "gamePhase s = boss_encounter" "k < length (reservedDice s)"
    "bossRoll (reservedDice s ! k) g = Inr (r, g')"
    "boss_hp b \<le> sum_list (currentDiceThrows s) + r"
  define t where "t = throwAtBoss r (s\<lparr>reservedDice := removeAt k (reservedDice s)\<rparr>)"
  have t: "currentBoss t = Some b" "boss_hp b \<le> sum_list (currentDiceThrows t)"
    and u: "bossesDefeated t = bossesDefeated s" "perfectBossDefeats t = perfectBossDefeats s"
    "sum_list (currentDiceThrows t) = sum_list (currentDiceThrows s) + r"
    using assms a(4) by (simp_all add: t_def throwAtBoss_eq)
  have "rollDiceForBoss (InBag k) s g = resolveBossThrow t g'"
    unfolding t_def using a(1,2,3) by (rule rollDiceForBoss_bag)
  with resolveBossThrow_victory[OF t, of g']
  show "\<exists>s'. rollDiceForBoss (InBag k) s g = Inr s' \<and> bossesDefeated s' = bossesDefeated s + 1 \<and>
             perfectBossDefeats s' =
               perfectBossDefeats s +
                 (if sum_list (currentDiceThrows s) + r = boss_hp b then 1 else 0)"
    unfolding u by auto
qed

theorem damage_victory_counters_witness:
  "(\<exists>s'. rollDiceForBoss (InBag 0) (bossState 1 [10] 2 [fixedDie 5] 0) (constRng 0) = Inr s' \<and>
         bossesDefeated s' = 1 \<and> perfectBossDefeats s' = 1) \<and>
   (\<exists>s'. rollDiceForBoss (InBag 0) (bossState 1 [10] 2 [fixedDie 6] 0) (constRng 0) = Inr s' \<and>
         bossesDefeated s' = 1 \<and> perfectBossDefeats s' = 0)"
proof -
  let ?s = "bossState 1 [10] 2 [fixedDie 5] 0" and ?t = "bossState 1 [10] 2 [fixedDie 6] 0"
  have a: "currentBoss ?s = Some (the (currentBoss ?s))"
    "gamePhase ?s = boss_encounter" "0 < length (reservedDice ?s)"
    "bossRoll (reservedDice ?s ! 0) (constRng 0) = Inr (5, constRng 0)"
    "boss_hp (the (currentBoss ?s)) \<le> sum_list (currentDiceThrows ?s) + 5"
    and a': "bossesDefeated ?s = 0" "perfectBossDefeats ?s = 0"
    "sum_list (currentDiceThrows ?s) + 5 = boss_hp (the (currentBoss ?s))"
    by (simp_all add: sample_defs)
  have b: "currentBoss ?t = Some (the (currentBoss ?t))"
    "gamePhase ?t = boss_encounter" "0 < length (reservedDice ?t)"
    "bossRoll (reservedDice ?t ! 0) (constRng 0) = Inr (6, constRng 0)"
    "boss_hp (the (currentBoss ?t)) \<le> sum_list (currentDiceThrows ?t) + 6"
    and b': "bossesDefeated ?t = 0" "perfectBossDefeats ?t = 0"
    "sum_list (currentDiceThrows ?t) + 6 \<noteq> boss_hp (the (currentBoss ?t))"
    by (simp_all add: sample_defs)
  from damage_victory_counters[OF a(1), where g = "constRng 0" and k = 0 and r = 5
      and g' = "constRng 0"] a(2-)
  have "\<exists>s'. rollDiceForBoss (InBag 0) ?s (constRng 0) = Inr s' \<and>
          bossesDefeated s' = bossesDefeated ?s + 1 \<and>
          perfectBossDefeats s' = perfectBossDefeats ?s +
            (if sum_list (currentDiceThrows ?s) + 5 = boss_hp (the (currentBoss ?s)) then 1 else 0)"
    by blast
  moreover
  from damage_victory_counters[OF b(1), where g = "constRng 0" and k = 0 and r = 6
      and g' = "constRng 0"] b(2-)
  have "\<exists>s'. rollDiceForBoss (InBag 0) ?t (constRng 0) = Inr s' \<and>
          bossesDefeated s' = bossesDefeated ?t + 1 \<and>
          perfectBossDefeats s' = perfectBossDefeats ?t +
            (if sum_list (currentDiceThrows ?t) + 6 = boss_hp (the (currentBoss ?t)) then 1 else 0)"
    by blast
  ultimately show ?thesis
    unfolding a' b' using b'(3) by simp
qed

text \<open>
  C4. After the boss of the last stage is beaten, defeatBoss sets isGameOver and
  showSummaryModal and returns: gamePhase is still boss_encounter, not game_won. Here the
  fifth boss (hp 70) has taken 65 damage and the free die rolls a 6.
\<close>

theorem final_boss_victory_phase:
  "\<exists>s'. rollDice (- 1) (bossState 5 [20, 20, 20, 5] 2 [] 0) (constRng (9 / 10)) = Inr s' \<and>
        playerStage s' = 6 \<and> isGameOver s' \<and> showSummaryModal s' \<and>
        gamePhase s' = boss_encounter \<and> remainingBossRolls s' = 1"
proof -
  let ?s = "bossState 5 [20, 20, 20, 5] 2 [] 0"
  let ?t = "throwAtBoss 6 (?s\<lparr>remainingBossRolls := remainingBossRolls ?s - 1\<rparr>)"
  have a: "gamePhase ?s = boss_encounter" "0 < remainingBossRolls ?s"
    "\<lceil>constRng (9 / 10) 0 * 6\<rceil> = 6"
    by (simp_all add: sample_defs)
  have "rollDice (- 1) ?s (constRng (9 / 10)) = resolveBossThrow ?t (rng_tl (constRng (9 / 10)))"
    using rollDice_boss[OF a(1,2), of "- 1" "constRng (9 / 10)"] unfolding a(3) .
  also have "\<dots> = Inr (nextStage (?t\<lparr>bossesDefeated := bossesDefeated ?t + 1\<rparr>) (rng_tl (constRng (9 / 10))))"
    by (simp add: resolveBossThrow_def defeatBoss_def throwAtBoss_eq sample_defs)
  finally show ?thesis
    by (simp add: nextStage_last MAX_STAGES_def throwAtBoss_eq sample_defs)
qed

theorem final_boss_victory_phase_witness:
  "\<exists>s'. rollDice (- 1) (bossState 5 [20, 20, 20, 5] 2 [] 0) (constRng (9 / 10)) = Inr s' \<and>
        isGameOver s' \<and> gamePhase s' \<noteq> game_won"
  using final_boss_victory_phase by auto

text \<open>
  C2, as the claim states it: every boss throw is rejected as a no-op when the budget is
  zero and takes one unit of it otherwise. A die thrown from the bag with rollDiceForBoss
  does neither: with remainingBossRolls = 0 and the dice Fixed 3 and Fixed 4 in the bag,
  throwing the first one logs a 3; with remainingBossRolls = 2 the throw leaves the 2.
\<close>

theorem bag_throw_ignores_budget:
  "gamePhase (bossState 1 [] 0 [fixedDie 3, fixedDie 4] 0) = boss_encounter \<and>
   remainingBossRolls (bossState 1 [] 0 [fixedDie 3, fixedDie 4] 0) = 0 \<and>
   rollDiceForBoss (InBag 0) (bossState 1 [] 0 [fixedDie 3, fixedDie 4] 0) (constRng 0) =
     Inr ((bossState 1 [] 0 [fixedDie 4] 0)\<lparr>currentDiceThrows := [3], totalRolls := 1,
                                            currentBossHP := Some 12\<rparr>) \<and>
   rollDiceForBoss (InBag 0) (bossState 1 [] 0 [fixedDie 3, fixedDie 4] 0) (constRng 0) \<noteq>
     Inr (bossState 1 [] 0 [fixedDie 3, fixedDie 4] 0) \<and>
   rollDiceForBoss (InBag 0) (bossState 1 [] 2 [fixedDie 3] 0) (constRng 0) =
     Inr ((bossState 1 [] 2 [] 0)\<lparr>currentDiceThrows := [3], totalRolls := 1,
                                  currentBossHP := Some 12\<rparr>)"
  by (simp add: rollDiceForBoss_def resolveBossThrow_def throwAtBoss_eq removeAt_def
        failBossFight_def sample_defs)

text \<open>
  C2, amended. The budget remainingBossRolls belongs to the free die: rollDice in a boss
  encounter is a no-op when the budget is zero (or less) and otherwise logs the throw and
  takes exactly one unit of the budget. A die thrown from the bag with rollDiceForBoss
  leaves the bag and is logged whatever the budget is, and the budget keeps its value.
  (Stated for throws that do not reach the boss's hp; a throw that does ends the
  encounter, see C1.)
\<close>

theorem boss_throw_budget:
  assumes "gamePhase s = boss_encounter" and "currentBoss s = Some b"
  shows
    "(remainingBossRolls s \<le> 0 \<longrightarrow> rollDice i s g = Inr s) \<and>
     (0 < remainingBossRolls s \<longrightarrow> sum_list (currentDiceThrows s) + \<lceil>g 0 * 6\<rceil> < boss_hp b \<longrightarrow>
       (\<exists>s'. rollDice i s g = Inr s' \<and> remainingBossRolls s' = remainingBossRolls s - 1 \<and>
             currentDiceThrows s' = currentDiceThrows s @ [\<lceil>g 0 * 6\<rceil>] \<and>
             reservedDice s' = reservedDice s)) \<and>
     (k < length (reservedDice s) \<longrightarrow> bossRoll (reservedDice s ! k) g = Inr (r, g') \<longrightarrow>
      sum_list (currentDiceThrows s) + r < boss_hp b \<longrightarrow>
       (\<exists>s'. rollDiceForBoss (InBag k) s g = Inr s' \<and> remainingBossRolls s' = remainingBossRolls s \<and>
             currentDiceThrows s' = currentDiceThrows s @ [r] \<and>
             reservedDice s' = removeAt k (reservedDice s)))"
proof (intro conjI impI)
  assume "remainingBossRolls s \<le> 0"
  with assms(1) show "rollDice i s g = Inr s" by (simp add: rollDice_def)
next
  assume a: "0 < remainingBossRolls s" "sum_list (currentDiceThrows s) + \<lceil>g 0 * 6\<rceil> < boss_hp b"
  define t where "t = throwAtBoss \<lceil>g 0 * 6\<rceil> (s\<lparr>remainingBossRolls := remainingBossRolls s - 1\<rparr>)"
  have t: "currentBoss t = Some b" "sum_list (currentDiceThrows t) < boss_hp b"
    using assms a(2) by (simp_all add: t_def throwAtBoss_eq)
  have "rollDice i s g = resolveBossThrow t (rng_tl g)"
    unfolding t_def using assms(1) a(1) by (rule rollDice_boss)
  then show "\<exists>s'. rollDice i s g = Inr s' \<and> remainingBossRolls s' = remainingBossRolls s - 1 \<and>
             currentDiceThrows s' = currentDiceThrows s @ [\<lceil>g 0 * 6\<rceil>] \<and>
             reservedDice s' = reservedDice s"
    unfolding resolveBossThrow_miss[OF t]
    by (simp add: failBossFight_def t_def throwAtBoss_eq)
next
  assume a: "k < length (reservedDice s)" "bossRoll (reservedDice s ! k) g = Inr (r, g')"
    "sum_list (currentDiceThrows s) + r < boss_hp b"
  define t where "t = throwAtBoss r (s\<lparr>reservedDice := removeAt k (reservedDice s)\<rparr>)"
  have t: "currentBoss t = Some b" "sum_list (currentDiceThrows t) < boss_hp b"
    using assms a(3) by (simp_all add: t_def throwAtBoss_eq)
  have "rollDiceForBoss (InBag k) s g = resolveBossThrow t g'"
    unfolding t_def using assms(1) a(1,2) by (rule rollDiceForBoss_bag)
  then show "\<exists>s'. rollDiceForBoss (InBag k) s g = Inr s' \<and> remainingBossRolls s' = remainingBossRolls s \<and>
             currentDiceThrows s' = currentDiceThrows s @ [r] \<and>
             reservedDice s' = removeAt k (reservedDice s)"
    unfolding resolveBossThrow_miss[OF t]
    by (simp add: failBossFight_def t_def throwAtBoss_eq)
qed

theorem boss_throw_budget_witness:
  "rollDice (- 1) (bossState 1 [] 0 [fixedDie 3] 0) (constRng 0) = Inr (bossState 1 [] 0 [fixedDie 3] 0) \<and>
   (\<exists>s'. rollDice (- 1) (bossState 1 [] 3 [fixedDie 3] 0) (constRng (1 / 2)) = Inr s' \<and>
         remainingBossRolls s' = 2 \<and> currentDiceThrows s' = [3] \<and> reservedDice s' = [fixedDie 3]) \<and>
   (\<exists>s'. rollDiceForBoss (InBag 0) (bossState 1 [] 0 [fixedDie 3] 0) (constRng 0) = Inr s' \<and>
         remainingBossRolls s' = 0 \<and> currentDiceThrows s' = [3] \<and> reservedDice s' = [])"
proof -
  let ?s = "bossState 1 [] 0 [fixedDie 3] 0" and ?t = "bossState 1 [] 3 [fixedDie 3] 0"
  have a: "gamePhase ?s = boss_encounter" "currentBoss ?s = Some (the (currentBoss ?s))"
    "remainingBossRolls ?s \<le> 0" "0 < length (reservedDice ?s)"
    "bossRoll (reservedDice ?s ! 0) (constRng 0) = Inr (3, constRng 0)"
    "sum_list (currentDiceThrows ?s) + 3 < boss_hp (the (currentBoss ?s))"
    and a': "remainingBossRolls ?s = 0" "currentDiceThrows ?s @ [3] = [3]"
      "removeAt 0 (reservedDice ?s) = []"
    by (simp_all add: sample_defs removeAt_def)
  have b: "gamePhase ?t = boss_encounter" "currentBoss ?t = Some (the (currentBoss ?t))"
    "0 < remainingBossRolls ?t"
    "sum_list (currentDiceThrows ?t) + \<lceil>constRng (1 / 2) 0 * 6\<rceil> < boss_hp (the (currentBoss ?t))"
    and b': "remainingBossRolls ?t - 1 = 2" "currentDiceThrows ?t @ [\<lceil>constRng (1 / 2) 0 * 6\<rceil>] = [3]"
      "reservedDice ?t = [fixedDie 3]"
    by (simp_all add: sample_defs)
  from boss_throw_budget[OF a(1,2), where g = "constRng 0" and i = "- 1" and k = 0 and r = 3
      and g' = "constRng 0"] a(3-)
  have "rollDice (- 1) ?s (constRng 0) = Inr ?s"
    and "\<exists>s'. rollDiceForBoss (InBag 0) ?s (constRng 0) = Inr s' \<and>
           remainingBossRolls s' = remainingBossRolls ?s \<and>
           currentDiceThrows s' = currentDiceThrows ?s @ [3] \<and>
           reservedDice s' = removeAt 0 (reservedDice ?s)"
    by blast+
  moreover
  from boss_throw_budget[OF b(1,2), where g = "constRng (1 / 2)" and i = "- 1"] b(3-)
  have "\<exists>s'. rollDice (- 1) ?t (constRng (1 / 2)) = Inr s' \<and>
          remainingBossRolls s' = remainingBossRolls ?t - 1 \<and>
          currentDiceThrows s' = currentDiceThrows ?t @ [\<lceil>constRng (1 / 2) 0 * 6\<rceil>] \<and>
          reservedDice s' = reservedDice ?t"
    by blast
  ultimately show ?thesis
    unfolding a' b' by simp
qed

subsection \<open>Movement\<close>

lemma totalBoardSquares_upd [simp]:
  "totalBoardSquares (s\<lparr>playerPosition := p\<rparr>) = totalBoardSquares s"
  "totalBoardSquares (s\<lparr>playerMoney := m\<rparr>) = totalBoardSquares s"
  "totalBoardSquares (s\<lparr>playerLap := l\<rparr>) = totalBoardSquares s"
  "totalBoardSquares (s\<lparr>gamePhase := ph\<rparr>) = totalBoardSquares s"
  "totalBoardSquares (s\<lparr>isAnimating := an\<rparr>) = totalBoardSquares s"
  "totalBoardSquares (s\<lparr>lastPlayerPositionBeforeThisMove := q\<rparr>) = totalBoardSquares s"
  "totalBoardSquares (s\<lparr>lastDiceRoll := r\<rparr>) = totalBoardSquares s"
  "totalBoardSquares (s\<lparr>reservedDice := ds\<rparr>) = totalBoardSquares s"
  "totalBoardSquares (s\<lparr>boardSquares := b\<rparr>) = totalBoardSquares s"
  by (simp_all add: totalBoardSquares_def)

lemma js_rem_in_range: "0 \<le> a \<Longrightarrow> a < b \<Longrightarrow> js_rem a b = Some a"
  by (cases "a = 0") (simp_all add: js_rem_def)

lemma js_rem_self: "0 < b \<Longrightarrow> js_rem b b = Some 0"
  by (simp add: js_rem_def)

lemma moveStep_forward:
  assumes "\<not> isGameOver s" "0 \<le> playerPosition s" "playerPosition s + 1 < totalBoardSquares s"
  shows "moveStep 1 s g =
           Inr (Continue (s\<lparr>playerPosition := playerPosition s + 1,
                            playerMoney := playerMoney s +
                              (case arr_get (boardSquares s) (playerPosition s + 1) of
                                 None \<Rightarrow> 0 | Some sq \<Rightarrow> passAward sq)\<rparr>))"
proof -
  have r: "js_rem (playerPosition s + 1) (totalBoardSquares s) = Some (playerPosition s + 1)"
    using assms by (intro js_rem_in_range) simp_all
  have nz: "playerPosition s + 1 \<noteq> 0" using assms by simp
  show ?thesis
  proof (cases "arr_get (boardSquares s) (playerPosition s + 1)")
    case None
    then show ?thesis using assms(1) nz by (simp add: moveStep_def r Let_def)
  next
    case (Some sq)
    then show ?thesis using assms(1) nz
      by (simp add: moveStep_def r Let_def passAward_def
            split: effect_type.splits option.splits effect_details.splits)
  qed
qed

lemma moveLoop_forward:
  assumes "\<not> isGameOver s" "0 \<le> playerPosition s"
    "playerPosition s + int n < totalBoardSquares s"
  shows "moveLoop n 1 s g =
           Inr (MoveDone (s\<lparr>playerPosition := playerPosition s + int n,
                             playerMoney := playerMoney s +
                               moneyAlong (boardSquares s) (playerPosition s) n\<rparr>) False g)"
  using assms
proof (induction n arbitrary: s)
  case 0
  then show ?case by simp
next
  case (Suc n)
  let ?s' = "s\<lparr>playerPosition := playerPosition s + 1,
                playerMoney := playerMoney s +
                  (case arr_get (boardSquares s) (playerPosition s + 1) of
                     None \<Rightarrow> 0 | Some sq \<Rightarrow> passAward sq)\<rparr>"
  have st: "moveStep 1 s g = Inr (Continue ?s')"
    using Suc.prems by (intro moveStep_forward) simp_all
  have "moveLoop n 1 ?s' g =
           Inr (MoveDone (?s'\<lparr>playerPosition := playerPosition ?s' + int n,
                             playerMoney := playerMoney ?s' +
                               moneyAlong (boardSquares ?s') (playerPosition ?s') n\<rparr>) False g)"
    using Suc.prems by (intro Suc.IH) simp_all
  then show ?case
    by (simp add: st add.assoc add.commute)
qed

lemma landingEffect_frame:
  "\<exists>m b ph cd. landingEffect k sq s g =
     s\<lparr>playerMoney := m, boardSquares := b, gamePhase := ph, choiceDetails := cd\<rparr> \<and>
     (ph = gamePhase s \<or> ph = awaiting_choice)"
proof (cases "currentEffectType sq")
  case E_none
  then have "landingEffect k sq s g = s" by (simp add: landingEffect_def)
  then have "landingEffect k sq s g =
     s\<lparr>playerMoney := playerMoney s, boardSquares := boardSquares s, gamePhase := gamePhase s,
       choiceDetails := choiceDetails s\<rparr>" by simp
  then show ?thesis by blast
next
  case E_temp_bad_lap
  then obtain m where "landingEffect k sq s g = s\<lparr>playerMoney := m\<rparr>"
    by (simp add: landingEffect_def Let_def)
  then have "landingEffect k sq s g =
     s\<lparr>playerMoney := m, boardSquares := boardSquares s, gamePhase := gamePhase s,
       choiceDetails := choiceDetails s\<rparr>" by simp
  then show ?thesis by blast
next
  case E_huge_money
  then obtain m b where "landingEffect k sq s g = s\<lparr>playerMoney := m, boardSquares := b\<rparr>"
    by (simp add: landingEffect_def Let_def)
  then have "landingEffect k sq s g =
     s\<lparr>playerMoney := m, boardSquares := b, gamePhase := gamePhase s,
       choiceDetails := choiceDetails s\<rparr>" by simp
  then show ?thesis by blast
next
  case E_normal_money
  then have "landingEffect k sq s g = s" by (simp add: landingEffect_def)
  then have "landingEffect k sq s g =
     s\<lparr>playerMoney := playerMoney s, boardSquares := boardSquares s, gamePhase := gamePhase s,
       choiceDetails := choiceDetails s\<rparr>" by simp
  then show ?thesis by blast
next
  case E_choice_dice_money
  then obtain cd where "landingEffect k sq s g = s\<lparr>gamePhase := awaiting_choice, choiceDetails := cd\<rparr>"
    by (simp add: landingEffect_def Let_def case_prod_beta)
  then have "landingEffect k sq s g =
     s\<lparr>playerMoney := playerMoney s, boardSquares := boardSquares s, gamePhase := awaiting_choice,
       choiceDetails := cd\<rparr>" by simp
  then show ?thesis by blast
next
  case E_choice_pick_die
  then obtain cd where "landingEffect k sq s g = s\<lparr>gamePhase := awaiting_choice, choiceDetails := cd\<rparr>"
    by (simp add: landingEffect_def Let_def case_prod_beta)
  then have "landingEffect k sq s g =
     s\<lparr>playerMoney := playerMoney s, boardSquares := boardSquares s, gamePhase := awaiting_choice,
       choiceDetails := cd\<rparr>" by simp
  then show ?thesis by blast
qed

lemma handleSquareLanding_frame:
  "\<exists>m b ph cd an. handleSquareLanding s g =
     s\<lparr>playerMoney := m, boardSquares := b, gamePhase := ph, choiceDetails := cd,
       isAnimating := an\<rparr> \<and>
     (ph = gamePhase s \<or> ph = awaiting_choice \<or> ph = rolling)"
proof -
  have triv: "t = t\<lparr>playerMoney := playerMoney t, boardSquares := boardSquares t,
      gamePhase := gamePhase t, choiceDetails := choiceDetails t, isAnimating := isAnimating t\<rparr>"
    for t :: game_state by simp
  show ?thesis
  proof (cases "isGameOver s \<or> (isAnimating s \<and> gamePhase s \<noteq> landed)")
    case True
    then have "handleSquareLanding s g = s" by (simp add: handleSquareLanding_def)
    with triv[of s] show ?thesis by metis
  next
    case False
    show ?thesis
    proof (cases "arr_get (boardSquares s) (playerPosition s)")
      case None
      with False have "handleSquareLanding s g =
        s\<lparr>playerMoney := playerMoney s, boardSquares := boardSquares s,
      gamePhase := rolling, choiceDetails := choiceDetails s, isAnimating := False\<rparr>"
        by (auto simp add: handleSquareLanding_def)
      then show ?thesis by blast
    next
      case (Some sq)
      define s1 where "s1 = (if baseType sq = B_corner_br then s\<lparr>playerMoney := playerMoney s - 20\<rparr> else s)"
      obtain m b ph cd where e: "landingEffect (nat (playerPosition s)) sq s1 g =
          s1\<lparr>playerMoney := m, boardSquares := b, gamePhase := ph, choiceDetails := cd\<rparr>"
        "ph = gamePhase s1 \<or> ph = awaiting_choice"
        using landingEffect_frame by blast
      have "handleSquareLanding s g = landingEffect (nat (playerPosition s)) sq s1 g"
        using False Some by (auto simp add: handleSquareLanding_def s1_def)
      then have "handleSquareLanding s g =
         s1\<lparr>playerMoney := m, boardSquares := b, gamePhase := ph, choiceDetails := cd\<rparr>"
        by (simp add: e(1))
      then have "handleSquareLanding s g =
         s\<lparr>playerMoney := m, boardSquares := b, gamePhase := ph, choiceDetails := cd,
           isAnimating := isAnimating s\<rparr>"
        by (cases "baseType sq = B_corner_br") (simp_all add: s1_def)
      moreover have "ph = gamePhase s \<or> ph = awaiting_choice"
        using e(2) by (simp add: s1_def split: if_splits)
      ultimately show ?thesis by blast
    qed
  qed
qed

lemma handleSquareLanding_normal_money:
  assumes "arr_get (boardSquares s) (playerPosition s) = Some sq"
    "currentEffectType sq = E_normal_money" "baseType sq \<noteq> B_corner_br"
  shows "handleSquareLanding s g = s"
  using assms by (simp add: handleSquareLanding_def landingEffect_def)

lemma afterMove_frame:
  assumes "\<not> (passed \<and> playerLap s = lapsToComplete (currentStageConfig s))"
  shows "\<exists>m b ph cd an. afterMove s passed g =
           Inr (s\<lparr>playerMoney := m, boardSquares := b, gamePhase := ph, choiceDetails := cd,
                  isAnimating := an\<rparr>) \<and>
           ph \<noteq> boss_encounter \<and> (\<not> isGameOver s \<longrightarrow> ph = rolling \<or> ph = awaiting_choice)"
proof -
  obtain b1 g1 where lap: "(if passed then setupLapEffects s g else (s, g)) = (s\<lparr>boardSquares := b1\<rparr>, g1)"
  proof (cases passed)
    case True
    then show ?thesis using setupLapEffects_board[of s g] that by auto
  next
    case False
    have "(s, g) = (s\<lparr>boardSquares := boardSquares s\<rparr>, g)" by simp
    with False show ?thesis using that by metis
  qed
  define s1 where "s1 = s\<lparr>boardSquares := b1, gamePhase := landed\<rparr>"
  obtain m b ph cd an where land: "handleSquareLanding s1 g1 =
      s1\<lparr>playerMoney := m, boardSquares := b, gamePhase := ph, choiceDetails := cd,
        isAnimating := an\<rparr>" "ph = gamePhase s1 \<or> ph = awaiting_choice \<or> ph = rolling"
    using handleSquareLanding_frame by blast
  define s2 where "s2 = handleSquareLanding s1 g1"
  have s2: "s2 = s\<lparr>playerMoney := m, boardSquares := b, gamePhase := ph, choiceDetails := cd,
        isAnimating := an\<rparr>"
    unfolding s2_def land(1) by (simp add: s1_def)
  have ph: "ph = landed \<or> ph = awaiting_choice \<or> ph = rolling"
    using land(2) by (simp add: s1_def)
  have "afterMove s passed g =
          Inr (if gamePhase s2 = awaiting_choice then s2\<lparr>isAnimating := False\<rparr>
               else if gamePhase s2 \<noteq> boss_encounter_intro \<and> \<not> isGameOver s2
               then s2\<lparr>gamePhase := rolling, isAnimating := False\<rparr>
               else if isGameOver s2 then s2\<lparr>isAnimating := False\<rparr>
               else s2)"
  proof -
    have c: "(passed \<and> playerLap s = lapsToComplete (currentStageConfig s)) = False"
      using assms by simp
    show ?thesis
      unfolding afterMove_def c lap s2_def s1_def by (simp add: Let_def)
  qed
  then have "afterMove s passed g =
          Inr (s\<lparr>playerMoney := m, boardSquares := b,
                 gamePhase := (if ph = awaiting_choice then ph
                               else if \<not> isGameOver s then rolling else ph),
                 choiceDetails := cd,
                 isAnimating := (if ph = awaiting_choice \<or> \<not> isGameOver s \<or> isGameOver s
                                 then False else an)\<rparr>)"
    using ph by (elim disjE) (simp_all add: s2)
  moreover have "(if ph = awaiting_choice then ph
                               else if \<not> isGameOver s then rolling else ph) \<noteq> boss_encounter"
    using ph by auto
  moreover have "\<not> isGameOver s \<longrightarrow> (if ph = awaiting_choice then ph
                               else if \<not> isGameOver s then rolling else ph) = rolling \<or>
     (if ph = awaiting_choice then ph
                               else if \<not> isGameOver s then rolling else ph) = awaiting_choice"
    by auto
  ultimately show ?thesis by blast
qed

lemma afterMove_normal_money:
  assumes "arr_get (boardSquares s) (playerPosition s) = Some sq"
    "currentEffectType sq = E_normal_money" "baseType sq \<noteq> B_corner_br" "\<not> isGameOver s"
  shows "afterMove s False g = Inr (s\<lparr>gamePhase := rolling, isAnimating := False\<rparr>)"
proof -
  have "handleSquareLanding (s\<lparr>gamePhase := landed\<rparr>) g = s\<lparr>gamePhase := landed\<rparr>"
    using assms(1-3) by (intro handleSquareLanding_normal_money) simp_all
  then show ?thesis using assms(4) by (simp add: afterMove_def Let_def)
qed

lemma moveStep_backward:
  assumes "\<not> isGameOver s" "0 \<le> playerPosition s" "playerPosition s < totalBoardSquares s"
    "d \<le> 0"
  shows "moveStep d s g =
           Inr (Continue (s\<lparr>playerPosition := (playerPosition s - 1) mod totalBoardSquares s\<rparr>))"
proof -
  let ?T = "totalBoardSquares s" and ?p = "playerPosition s"
  have T: "0 < ?T" using assms by simp
  have "js_rem (?p - 1 + ?T) ?T = Some ((?p - 1) mod ?T)"
  proof (cases "?p - 1 + ?T = 0")
    case True
    then have "?T = 1" "?p = 0" using assms by simp_all
    then show ?thesis by (simp add: js_rem_def)
  next
    case False
    then have "0 < ?p - 1 + ?T" using assms by simp
    then have "sgn (?p - 1 + ?T) = 1" "\<bar>?p - 1 + ?T\<bar> = ?p - 1 + ?T" by simp_all
    moreover have "(?p - 1 + ?T) mod ?T = (?p - 1) mod ?T" by simp
    ultimately show ?thesis using T by (simp add: js_rem_def)
  qed
  then show ?thesis using assms(1,4) by (simp add: moveStep_def)
qed

lemma moveLoop_backward:
  assumes "\<not> isGameOver s" "0 \<le> playerPosition s" "playerPosition s < totalBoardSquares s"
    "d \<le> 0"
  shows "moveLoop n d s g =
           Inr (MoveDone (s\<lparr>playerPosition :=
                              (playerPosition s - int n) mod totalBoardSquares s\<rparr>) False g)"
  using assms
proof (induction n arbitrary: s)
  case 0
  then show ?case by simp
next
  case (Suc n)
  let ?s' = "s\<lparr>playerPosition := (playerPosition s - 1) mod totalBoardSquares s\<rparr>"
  have st: "moveStep d s g = Inr (Continue ?s')"
    using Suc.prems by (rule moveStep_backward)
  have T: "0 < totalBoardSquares s" using Suc.prems by simp
  have "moveLoop n d ?s' g =
          Inr (MoveDone (?s'\<lparr>playerPosition :=
                              (playerPosition ?s' - int n) mod totalBoardSquares ?s'\<rparr>) False g)"
    using Suc.prems T by (intro Suc.IH) simp_all
  moreover have "((playerPosition s - 1) mod totalBoardSquares s - int n) mod totalBoardSquares s
      = (playerPosition s - int (Suc n)) mod totalBoardSquares s"
    by (simp add: mod_diff_left_eq algebra_simps)
  ultimately show ?case by (simp add: st)
qed

lemma moveStep_wrap:
  assumes "\<not> isGameOver s" "0 \<le> playerPosition s" "playerPosition s + 1 = totalBoardSquares s"
  shows "moveStep 1 s g =
           (if playerLap s + 1 = lapsToComplete (currentStageConfig s)
            then (case handleBossEncounter
                         (s\<lparr>playerPosition := 0, playerLap := playerLap s + 1,
                            gamePhase := boss_encounter, isAnimating := False\<rparr>) of
                    Inl e \<Rightarrow> Inl e
                  | Inr s3 \<Rightarrow> Inr (Leave (BossStarted s3)))
            else Inr (Leave (MoveDone
                   (fst (setupLapEffects (s\<lparr>playerPosition := 0, playerLap := playerLap s + 1\<rparr>) g))
                   True
                   (snd (setupLapEffects (s\<lparr>playerPosition := 0, playerLap := playerLap s + 1\<rparr>) g)))))"
proof -
  have "js_rem (playerPosition s + 1) (totalBoardSquares s) = Some 0"
    using assms by (simp add: js_rem_self)
  then show ?thesis using assms(1) by (simp add: moveStep_def Let_def case_prod_beta)
qed

lemma moveLoop_wrap:
  assumes "\<not> isGameOver s" "0 \<le> playerPosition s"
    "nat (totalBoardSquares s - playerPosition s - 1) = k"
    "playerPosition s < totalBoardSquares s"
    "totalBoardSquares s \<le> playerPosition s + int n"
  shows "moveLoop n 1 s g =
           (if playerLap s + 1 = lapsToComplete (currentStageConfig s)
            then (case handleBossEncounter
                      (s\<lparr>playerPosition := 0,
                         playerMoney := playerMoney s + moneyAlong (boardSquares s) (playerPosition s) k,
                         playerLap := playerLap s + 1,
                         gamePhase := boss_encounter, isAnimating := False\<rparr>) of
                    Inl e \<Rightarrow> Inl e
                  | Inr s3 \<Rightarrow> Inr (BossStarted s3))
            else Inr (MoveDone
                   (fst (setupLapEffects
                      (s\<lparr>playerPosition := 0,
                         playerMoney := playerMoney s + moneyAlong (boardSquares s) (playerPosition s) k,
                         playerLap := playerLap s + 1\<rparr>) g))
                   True
                   (snd (setupLapEffects
                      (s\<lparr>playerPosition := 0,
                         playerMoney := playerMoney s + moneyAlong (boardSquares s) (playerPosition s) k,
                         playerLap := playerLap s + 1\<rparr>) g))))"
  using assms
proof (induction k arbitrary: s n)
  case 0
  then obtain n' where n: "n = Suc n'" by (cases n) simp_all
  have p: "playerPosition s + 1 = totalBoardSquares s" using 0 by simp
  have e: "s\<lparr>playerPosition := 0, playerMoney := playerMoney s, playerLap := playerLap s + 1\<rparr>
         = s\<lparr>playerPosition := 0, playerLap := playerLap s + 1\<rparr>" by simp
  show ?case
    unfolding n moveLoop.simps moveStep_wrap[OF "0.prems"(1,2) p]
    by (simp add: e split: sum.splits)
next
  case (Suc k)
  then obtain n' where n: "n = Suc n'" by (cases n) simp_all
  let ?a = "case arr_get (boardSquares s) (playerPosition s + 1) of
                     None \<Rightarrow> 0 | Some sq \<Rightarrow> passAward sq"
  let ?s' = "s\<lparr>playerPosition := playerPosition s + 1, playerMoney := playerMoney s + ?a\<rparr>"
  have st: "moveStep 1 s g = Inr (Continue ?s')"
    using Suc.prems by (intro moveStep_forward) simp_all
  have m: "playerMoney s + ?a + moneyAlong (boardSquares s) (playerPosition s + 1) k
         = playerMoney s + moneyAlong (boardSquares s) (playerPosition s) (Suc k)"
    by simp
  have pre: "\<not> isGameOver ?s'" "0 \<le> playerPosition ?s'"
    "nat (totalBoardSquares ?s' - playerPosition ?s' - 1) = k"
    "playerPosition ?s' < totalBoardSquares ?s'"
    "totalBoardSquares ?s' \<le> playerPosition ?s' + int n'"
    using Suc.prems n by simp_all
  have "moveLoop n 1 s g = moveLoop n' 1 ?s' g"
    unfolding n moveLoop.simps st by simp
  also note Suc.IH[OF pre]
  finally show ?case
    by (simp add: m del: moneyAlong.simps)
qed

lemma movePlayer_forward:
  assumes "\<not> isGameOver s" "0 < steps" "0 \<le> playerPosition s"
    "playerPosition s + steps < totalBoardSquares s"
  shows "movePlayer steps s g =
           afterMove
             (s\<lparr>gamePhase := player_moving_animation,
                lastPlayerPositionBeforeThisMove := playerPosition s,
                playerPosition := playerPosition s + steps,
                playerMoney := playerMoney s +
                  moneyAlong (boardSquares s) (playerPosition s) (nat steps)\<rparr>) False g"
proof -
  let ?s1 = "s\<lparr>gamePhase := player_moving_animation,
                lastPlayerPositionBeforeThisMove := playerPosition s\<rparr>"
  have "moveLoop (nat steps) 1 ?s1 g =
           Inr (MoveDone (?s1\<lparr>playerPosition := playerPosition ?s1 + int (nat steps),
                             playerMoney := playerMoney ?s1 +
                               moneyAlong (boardSquares ?s1) (playerPosition ?s1) (nat steps)\<rparr>) False g)"
    using assms by (intro moveLoop_forward) simp_all
  then show ?thesis
    using assms(2) by (simp add: movePlayer_def Let_def)
qed

lemma movePlayer_backward:
  assumes "\<not> isGameOver s" "steps \<le> 0" "0 \<le> playerPosition s"
    "playerPosition s < totalBoardSquares s"
  shows "movePlayer steps s g =
           afterMove
             (s\<lparr>gamePhase := player_moving_animation,
                lastPlayerPositionBeforeThisMove := playerPosition s,
                playerPosition := (playerPosition s + steps) mod totalBoardSquares s\<rparr>) False g"
proof -
  let ?s1 = "s\<lparr>gamePhase := player_moving_animation,
                lastPlayerPositionBeforeThisMove := playerPosition s\<rparr>"
  have "moveLoop (nat \<bar>steps\<bar>) (- 1) ?s1 g =
           Inr (MoveDone (?s1\<lparr>playerPosition :=
                              (playerPosition ?s1 - int (nat \<bar>steps\<bar>)) mod totalBoardSquares ?s1\<rparr>)
                  False g)"
    using assms by (intro moveLoop_backward) simp_all
  moreover have "playerPosition s - int (nat \<bar>steps\<bar>) = playerPosition s + steps"
    using assms(2) by simp
  ultimately show ?thesis
    using assms(2) by (simp add: movePlayer_def Let_def)
qed

lemma movePlayer_wrap:
  assumes "\<not> isGameOver s" "0 < steps" "0 \<le> playerPosition s"
    "playerPosition s < totalBoardSquares s"
    "totalBoardSquares s \<le> playerPosition s + steps"
  shows "movePlayer steps s g =
           (if playerLap s + 1 = lapsToComplete (currentStageConfig s)
            then handleBossEncounter
                   (s\<lparr>lastPlayerPositionBeforeThisMove := playerPosition s,
                      playerPosition := 0,
                      playerMoney := playerMoney s +
                        moneyAlong (boardSquares s) (playerPosition s)
                          (nat (totalBoardSquares s - playerPosition s - 1)),
                      playerLap := playerLap s + 1,
                      gamePhase := boss_encounter, isAnimating := False\<rparr>)
            else afterMove
                   (fst (setupLapEffects
                      (s\<lparr>gamePhase := player_moving_animation,
                         lastPlayerPositionBeforeThisMove := playerPosition s,
                         playerPosition := 0,
                         playerMoney := playerMoney s +
                           moneyAlong (boardSquares s) (playerPosition s)
                             (nat (totalBoardSquares s - playerPosition s - 1)),
                         playerLap := playerLap s + 1\<rparr>) g))
                   True
                   (snd (setupLapEffects
                      (s\<lparr>gamePhase := player_moving_animation,
                         lastPlayerPositionBeforeThisMove := playerPosition s,
                         playerPosition := 0,
                         playerMoney := playerMoney s +
                           moneyAlong (boardSquares s) (playerPosition s)
                             (nat (totalBoardSquares s - playerPosition s - 1)),
                         playerLap := playerLap s + 1\<rparr>) g)))"
proof -
  let ?s1 = "s\<lparr>gamePhase := player_moving_animation,
                lastPlayerPositionBeforeThisMove := playerPosition s\<rparr>"
  have pre: "\<not> isGameOver ?s1" "0 \<le> playerPosition ?s1"
    "nat (totalBoardSquares ?s1 - playerPosition ?s1 - 1) = nat (totalBoardSquares s - playerPosition s - 1)"
    "playerPosition ?s1 < totalBoardSquares ?s1"
    "totalBoardSquares ?s1 \<le> playerPosition ?s1 + int (nat steps)"
    using assms by simp_all
  show ?thesis
    using assms(2)
    by (simp add: movePlayer_def Let_def moveLoop_wrap[OF pre] split: sum.splits)
qed

lemmas board_defs = moneyBoardState_def generateBoardLayout_def initialState_def totalBoardSquares_def
  stage1_def cornerSquareIds_def bottomRightCornerId_def newSquare_def arr_get_def payNormal_def
  passAward_def Let_def

text \<open>
  C6. Going forward, the player is credited the amount of every normal_money square
  stepped on, once per step, the square of the last step included: when the loop ends
  playerMoney has grown by moneyAlong over the squares of the move, and landing on a
  normal_money square adds nothing to that. Going backward, no step credits anything, and
  landing on a normal_money square leaves playerMoney as it was before the move.
  A forward move that reaches index 0 stops there with the squares before index 0
  credited, both when a new lap begins and when, on the last lap, the boss encounter
  begins: the encounter starts with that money. (Landing on the bottom-right corner,
  which is never a normal_money square on a generated board, costs 20.)
\<close>

theorem normal_money_per_step:
  assumes "\<not> isGameOver s" and "0 \<le> playerPosition s"
  shows
    "(0 < steps \<longrightarrow> playerPosition s + steps < totalBoardSquares s \<longrightarrow>
        movePlayer steps s g =
          afterMove
            (s\<lparr>gamePhase := player_moving_animation,
               lastPlayerPositionBeforeThisMove := playerPosition s,
               playerPosition := playerPosition s + steps,
               playerMoney := playerMoney s +
                 moneyAlong (boardSquares s) (playerPosition s) (nat steps)\<rparr>) False g \<and>
        (arr_get (boardSquares s) (playerPosition s + steps) = Some sq \<longrightarrow>
         currentEffectType sq = E_normal_money \<longrightarrow> baseType sq \<noteq> B_corner_br \<longrightarrow>
           (\<exists>s'. movePlayer steps s g = Inr s' \<and> playerPosition s' = playerPosition s + steps \<and>
                 playerMoney s' =
                   playerMoney s + moneyAlong (boardSquares s) (playerPosition s) (nat steps)))) \<and>
     (steps < 0 \<longrightarrow> playerPosition s < totalBoardSquares s \<longrightarrow>
        movePlayer steps s g =
          afterMove
            (s\<lparr>gamePhase := player_moving_animation,
               lastPlayerPositionBeforeThisMove := playerPosition s,
               playerPosition := (playerPosition s + steps) mod totalBoardSquares s\<rparr>) False g \<and>
        (arr_get (boardSquares s) ((playerPosition s + steps) mod totalBoardSquares s) = Some sq \<longrightarrow>
         currentEffectType sq = E_normal_money \<longrightarrow> baseType sq \<noteq> B_corner_br \<longrightarrow>
           (\<exists>s'. movePlayer steps s g = Inr s' \<and>
                 playerPosition s' = (playerPosition s + steps) mod totalBoardSquares s \<and>
                 playerMoney s' = playerMoney s))) \<and>
     (0 < steps \<longrightarrow> playerPosition s < totalBoardSquares s \<longrightarrow>
      totalBoardSquares s \<le> playerPosition s + steps \<longrightarrow>
      playerLap s + 1 \<noteq> lapsToComplete (currentStageConfig s) \<longrightarrow>
        movePlayer steps s g =
          afterMove
            (fst (setupLapEffects
               (s\<lparr>gamePhase := player_moving_animation,
                  lastPlayerPositionBeforeThisMove := playerPosition s,
                  playerPosition := 0,
                  playerMoney := playerMoney s +
                    moneyAlong (boardSquares s) (playerPosition s)
                      (nat (totalBoardSquares s - playerPosition s - 1)),
                  playerLap := playerLap s + 1\<rparr>) g))
            True
            (snd (setupLapEffects
               (s\<lparr>gamePhase := player_moving_animation,
                  lastPlayerPositionBeforeThisMove := playerPosition s,
                  playerPosition := 0,
                  playerMoney := playerMoney s +
                    moneyAlong (boardSquares s) (playerPosition s)
                      (nat (totalBoardSquares s - playerPosition s - 1)),
                  playerLap := playerLap s + 1\<rparr>) g))) \<and>
     (0 < steps \<longrightarrow> playerPosition s < totalBoardSquares s \<longrightarrow>
      totalBoardSquares s \<le> playerPosition s + steps \<longrightarrow>
      playerLap s + 1 = lapsToComplete (currentStageConfig s) \<longrightarrow>
        movePlayer steps s g =
          handleBossEncounter
            (s\<lparr>lastPlayerPositionBeforeThisMove := playerPosition s,
               playerPosition := 0,
               playerMoney := playerMoney s +
                 moneyAlong (boardSquares s) (playerPosition s)
                   (nat (totalBoardSquares s - playerPosition s - 1)),
               playerLap := playerLap s + 1,
               gamePhase := boss_encounter, isAnimating := False\<rparr>) \<and>
        (STAGE_CONFIGS (playerStage s) = Some c \<longrightarrow>
           (\<exists>s'. movePlayer steps s g = Inr s' \<and> playerPosition s' = 0 \<and>
                 gamePhase s' = boss_encounter \<and>
                 playerMoney s' =
                   playerMoney s +
                     moneyAlong (boardSquares s) (playerPosition s)
                       (nat (totalBoardSquares s - playerPosition s - 1)))))"
proof (intro conjI impI)
  assume a: "0 < steps" "playerPosition s + steps < totalBoardSquares s"
  let ?t = "s\<lparr>gamePhase := player_moving_animation,
               lastPlayerPositionBeforeThisMove := playerPosition s,
               playerPosition := playerPosition s + steps,
               playerMoney := playerMoney s +
                 moneyAlong (boardSquares s) (playerPosition s) (nat steps)\<rparr>"
  show m: "movePlayer steps s g = afterMove ?t False g"
    using assms(1) a(1) assms(2) a(2) by (rule movePlayer_forward)
  assume b: "arr_get (boardSquares s) (playerPosition s + steps) = Some sq"
    "currentEffectType sq = E_normal_money" "baseType sq \<noteq> B_corner_br"
  have "afterMove ?t False g = Inr (?t\<lparr>gamePhase := rolling, isAnimating := False\<rparr>)"
    using b assms(1) by (intro afterMove_normal_money) simp_all
  with m show "\<exists>s'. movePlayer steps s g = Inr s' \<and> playerPosition s' = playerPosition s + steps \<and>
                 playerMoney s' =
                   playerMoney s + moneyAlong (boardSquares s) (playerPosition s) (nat steps)"
    by simp
next
  assume a: "steps < 0" "playerPosition s < totalBoardSquares s"
  let ?t = "s\<lparr>gamePhase := player_moving_animation,
               lastPlayerPositionBeforeThisMove := playerPosition s,
               playerPosition := (playerPosition s + steps) mod totalBoardSquares s\<rparr>"
  show m: "movePlayer steps s g = afterMove ?t False g"
    using assms a by (intro movePlayer_backward) simp_all
  assume b: "arr_get (boardSquares s) ((playerPosition s + steps) mod totalBoardSquares s) = Some sq"
    "currentEffectType sq = E_normal_money" "baseType sq \<noteq> B_corner_br"
  have "afterMove ?t False g = Inr (?t\<lparr>gamePhase := rolling, isAnimating := False\<rparr>)"
    using b assms(1) by (intro afterMove_normal_money) simp_all
  with m show "\<exists>s'. movePlayer steps s g = Inr s' \<and>
                 playerPosition s' = (playerPosition s + steps) mod totalBoardSquares s \<and>
                 playerMoney s' = playerMoney s"
    by simp
next
  assume "0 < steps" "playerPosition s < totalBoardSquares s"
    "totalBoardSquares s \<le> playerPosition s + steps"
    "playerLap s + 1 \<noteq> lapsToComplete (currentStageConfig s)"
  then show "movePlayer steps s g =
          afterMove
            (fst (setupLapEffects
               (s\<lparr>gamePhase := player_moving_animation,
                  lastPlayerPositionBeforeThisMove := playerPosition s,
                  playerPosition := 0,
                  playerMoney := playerMoney s +
                    moneyAlong (boardSquares s) (playerPosition s)
                      (nat (totalBoardSquares s - playerPosition s - 1)),
                  playerLap := playerLap s + 1\<rparr>) g))
            True
            (snd (setupLapEffects
               (s\<lparr>gamePhase := player_moving_animation,
                  lastPlayerPositionBeforeThisMove := playerPosition s,
                  playerPosition := 0,
                  playerMoney := playerMoney s +
                    moneyAlong (boardSquares s) (playerPosition s)
                      (nat (totalBoardSquares s - playerPosition s - 1)),
                  playerLap := playerLap s + 1\<rparr>) g))"
    using assms by (simp add: movePlayer_wrap)
next
  assume a: "0 < steps" "playerPosition s < totalBoardSquares s"
    "totalBoardSquares s \<le> playerPosition s + steps"
    "playerLap s + 1 = lapsToComplete (currentStageConfig s)"
  let ?t = "s\<lparr>lastPlayerPositionBeforeThisMove := playerPosition s,
               playerPosition := 0,
               playerMoney := playerMoney s +
                 moneyAlong (boardSquares s) (playerPosition s)
                   (nat (totalBoardSquares s - playerPosition s - 1)),
               playerLap := playerLap s + 1,
               gamePhase := boss_encounter, isAnimating := False\<rparr>"
  show m: "movePlayer steps s g = handleBossEncounter ?t"
    using movePlayer_wrap[OF assms(1) a(1) assms(2) a(2,3), of g] a(4) by simp
  assume "STAGE_CONFIGS (playerStage s) = Some c"
  then obtain s' where s': "handleBossEncounter ?t = Inr s'" "playerPosition s' = 0"
    "gamePhase s' = boss_encounter"
    "playerMoney s' = playerMoney s +
                     moneyAlong (boardSquares s) (playerPosition s)
                       (nat (totalBoardSquares s - playerPosition s - 1))"
    by (simp add: handleBossEncounter_def Let_def)
  with m show "\<exists>s'. movePlayer steps s g = Inr s' \<and> playerPosition s' = 0 \<and>
                 gamePhase s' = boss_encounter \<and>
                 playerMoney s' =
                   playerMoney s +
                     moneyAlong (boardSquares s) (playerPosition s)
                       (nat (totalBoardSquares s - playerPosition s - 1))"
    by simp
qed

theorem normal_money_per_step_witness:
  "(\<exists>s'. movePlayer 3 (moneyBoardState 1) (constRng 0) = Inr s' \<and> playerPosition s' = 4 \<and>
         playerMoney s' = 6) \<and>
   (\<exists>s'. movePlayer (- 2) (moneyBoardState 4) (constRng 0) = Inr s' \<and> playerPosition s' = 2 \<and>
         playerMoney s' = 0) \<and>
   (\<exists>s'. movePlayer 6 ((moneyBoardState 17)\<lparr>playerLap := 2\<rparr>) (constRng 0) = Inr s' \<and>
         playerPosition s' = 0 \<and> gamePhase s' = boss_encounter \<and> playerMoney s' = 4)"
proof -
  let ?s = "moneyBoardState 1" and ?t = "moneyBoardState 4"
  let ?u = "(moneyBoardState 17)\<lparr>playerLap := 2\<rparr>"
  have a: "\<not> isGameOver ?s" "0 \<le> playerPosition ?s" "(0::int) < 3"
    "playerPosition ?s + 3 < totalBoardSquares ?s"
    "arr_get (boardSquares ?s) (playerPosition ?s + 3) = Some (boardSquares ?s ! 4)"
    "currentEffectType (boardSquares ?s ! 4) = E_normal_money"
    "baseType (boardSquares ?s ! 4) \<noteq> B_corner_br"
    and a': "playerPosition ?s + 3 = 4"
    "playerMoney ?s + moneyAlong (boardSquares ?s) (playerPosition ?s) (nat 3) = 6"
    by (simp_all add: board_defs eval_nat_numeral)
  have b: "\<not> isGameOver ?t" "0 \<le> playerPosition ?t" "(- 2 :: int) < 0"
    "playerPosition ?t < totalBoardSquares ?t"
    "arr_get (boardSquares ?t) ((playerPosition ?t + - 2) mod totalBoardSquares ?t)
       = Some (boardSquares ?t ! 2)"
    "currentEffectType (boardSquares ?t ! 2) = E_normal_money"
    "baseType (boardSquares ?t ! 2) \<noteq> B_corner_br"
    and b': "(playerPosition ?t + - 2) mod totalBoardSquares ?t = 2" "playerMoney ?t = 0"
    by (simp_all add: board_defs)
  have c: "\<not> isGameOver ?u" "0 \<le> playerPosition ?u" "(0::int) < 6"
    "playerPosition ?u < totalBoardSquares ?u"
    "totalBoardSquares ?u \<le> playerPosition ?u + 6"
    "playerLap ?u + 1 = lapsToComplete (currentStageConfig ?u)"
    "STAGE_CONFIGS (playerStage ?u) = Some stage1"
    and c': "playerMoney ?u + moneyAlong (boardSquares ?u) (playerPosition ?u)
                       (nat (totalBoardSquares ?u - playerPosition ?u - 1)) = 4"
    by (simp_all add: board_defs STAGE_CONFIGS_def eval_nat_numeral)
  from normal_money_per_step[OF a(1,2), where steps = 3 and g = "constRng 0"
      and sq = "boardSquares ?s ! 4"] a(3-)
  have "\<exists>s'. movePlayer 3 ?s (constRng 0) = Inr s' \<and> playerPosition s' = playerPosition ?s + 3 \<and>
          playerMoney s' = playerMoney ?s + moneyAlong (boardSquares ?s) (playerPosition ?s) (nat 3)"
    by blast
  moreover
  from normal_money_per_step[OF b(1,2), where steps = "- 2" and g = "constRng 0"
      and sq = "boardSquares ?t ! 2"] b(3-)
  have "\<exists>s'. movePlayer (- 2) ?t (constRng 0) = Inr s' \<and>
          playerPosition s' = (playerPosition ?t + - 2) mod totalBoardSquares ?t \<and>
          playerMoney s' = playerMoney ?t"
    by blast
  moreover
  from normal_money_per_step[OF c(1,2), where steps = 6 and g = "constRng 0" and c = stage1] c(3-)
  have "\<exists>s'. movePlayer 6 ?u (constRng 0) = Inr s' \<and> playerPosition s' = 0 \<and>
          gamePhase s' = boss_encounter \<and>
          playerMoney s' = playerMoney ?u + moneyAlong (boardSquares ?u) (playerPosition ?u)
                       (nat (totalBoardSquares ?u - playerPosition ?u - 1))"
    by blast
  ultimately show ?thesis
    unfolding a' b' c' by simp
qed

lemma handleBossEncounter_frame:
  assumes "STAGE_CONFIGS (playerStage s) = Some c"
  shows "\<exists>b. handleBossEncounter s =
           Inr (s\<lparr>currentBoss := Some b, remainingBossRolls := boss_diceThrows b,
                  currentBossHP := Some (boss_hp b), currentBossMaxHP := Some (boss_hp b),
                  currentDiceThrows := [], gamePhase := boss_encounter, isAnimating := False\<rparr>)"
proof -
  let ?b = "\<lparr>boss_diceThrows = diceThrows (bossDefeatCondition c),
             boss_hp = hp (bossDefeatCondition c),
             boss_bribeCost = bribeCost (bossDefeatCondition c),
             boss_image = bossImage c, boss_name = bossName c\<rparr>"
  have "handleBossEncounter s =
           Inr (s\<lparr>currentBoss := Some ?b, remainingBossRolls := boss_diceThrows ?b,
                  currentBossHP := Some (boss_hp ?b), currentBossMaxHP := Some (boss_hp ?b),
                  currentDiceThrows := [], gamePhase := boss_encounter, isAnimating := False\<rparr>)"
    using assms by (simp add: handleBossEncounter_def Let_def)
  then show ?thesis by blast
qed

lemma movedI:
  "s' = s\<lparr>lastPlayerPositionBeforeThisMove := q0, playerPosition := q, playerMoney := m,
               playerLap := l, boardSquares := b, gamePhase := ph, choiceDetails := cd,
               isAnimating := an, currentBoss := cb, remainingBossRolls := rb,
               currentBossHP := h, currentBossMaxHP := mh, currentDiceThrows := th\<rparr>
   \<Longrightarrow> moved s s'"
  unfolding moved_def by blast

lemma moved_fields:
  assumes "moved s s'"
  shows "reservedDice s' = reservedDice s" "lastDiceRoll s' = lastDiceRoll s"
    "playerStage s' = playerStage s" "isGameOver s' = isGameOver s"
    "totalRolls s' = totalRolls s" "currentStageConfig s' = currentStageConfig s"
    "bossesDefeated s' = bossesDefeated s" "diceObtained s' = diceObtained s"
  using assms unfolding moved_def by auto

lemma afterMove_moved:
  assumes "\<not> (passed \<and> playerLap s = lapsToComplete (currentStageConfig s))"
  shows "\<exists>s'. afterMove s passed g = Inr s' \<and> moved s s' \<and> playerPosition s' = playerPosition s \<and>
           playerLap s' = playerLap s \<and> gamePhase s' \<noteq> boss_encounter \<and>
           (\<not> isGameOver s \<longrightarrow> gamePhase s' = rolling \<or> gamePhase s' = awaiting_choice)"
proof -
  obtain m b ph cd an where e: "afterMove s passed g =
           Inr (s\<lparr>playerMoney := m, boardSquares := b, gamePhase := ph, choiceDetails := cd,
                  isAnimating := an\<rparr>)"
     "ph \<noteq> boss_encounter" "\<not> isGameOver s \<longrightarrow> ph = rolling \<or> ph = awaiting_choice"
    using afterMove_frame[OF assms, of g] by blast
  have "moved s (s\<lparr>playerMoney := m, boardSquares := b, gamePhase := ph, choiceDetails := cd,
                  isAnimating := an\<rparr>)"
    by (rule movedI[where ?q0.0 = "lastPlayerPositionBeforeThisMove s" and q = "playerPosition s"
          and l = "playerLap s" and cb = "currentBoss s" and rb = "remainingBossRolls s"
          and h = "currentBossHP s" and mh = "currentBossMaxHP s" and th = "currentDiceThrows s"])
       simp
  with e show ?thesis by simp
qed

lemma moved_refl: "moved s s"
  by (rule movedI[where ?q0.0 = "lastPlayerPositionBeforeThisMove s" and q = "playerPosition s"
          and m = "playerMoney s" and b = "boardSquares s" and ph = "gamePhase s"
          and cd = "choiceDetails s" and an = "isAnimating s"
          and l = "playerLap s" and cb = "currentBoss s" and rb = "remainingBossRolls s"
          and h = "currentBossHP s" and mh = "currentBossMaxHP s" and th = "currentDiceThrows s"])
     simp

lemma moved_trans:
  assumes "moved s t" "moved t u"
  shows "moved s u"
proof -
  obtain q0 q m l b ph cd an cb rb h mh th where
    t: "t = s\<lparr>lastPlayerPositionBeforeThisMove := q0, playerPosition := q, playerMoney := m,
               playerLap := l, boardSquares := b, gamePhase := ph, choiceDetails := cd,
               isAnimating := an, currentBoss := cb, remainingBossRolls := rb,
               currentBossHP := h, currentBossMaxHP := mh, currentDiceThrows := th\<rparr>"
    using assms(1) unfolding moved_def by blast
  obtain q0' q' m' l' b' ph' cd' an' cb' rb' h' mh' th' where
    u: "u = t\<lparr>lastPlayerPositionBeforeThisMove := q0', playerPosition := q', playerMoney := m',
               playerLap := l', boardSquares := b', gamePhase := ph', choiceDetails := cd',
               isAnimating := an', currentBoss := cb', remainingBossRolls := rb',
               currentBossHP := h', currentBossMaxHP := mh', currentDiceThrows := th'\<rparr>"
    using assms(2) unfolding moved_def by blast
  have "u = s\<lparr>lastPlayerPositionBeforeThisMove := q0', playerPosition := q', playerMoney := m',
               playerLap := l', boardSquares := b', gamePhase := ph', choiceDetails := cd',
               isAnimating := an', currentBoss := cb', remainingBossRolls := rb',
               currentBossHP := h', currentBossMaxHP := mh', currentDiceThrows := th'\<rparr>"
    unfolding u t by simp
  then show ?thesis by (rule movedI)
qed

lemma moved_start:
  "moved s (s\<lparr>gamePhase := ph, lastPlayerPositionBeforeThisMove := q0, playerPosition := q,
              playerMoney := m, playerLap := l\<rparr>)"
  by (rule movedI[where ?q0.0 = q0 and q = q and m = m and b = "boardSquares s" and ph = ph
          and cd = "choiceDetails s" and an = "isAnimating s"
          and l = l and cb = "currentBoss s" and rb = "remainingBossRolls s"
          and h = "currentBossHP s" and mh = "currentBossMaxHP s" and th = "currentDiceThrows s"])
     simp

lemma moved_board: "moved s (s\<lparr>boardSquares := b\<rparr>)"
  by (rule movedI[where ?q0.0 = "lastPlayerPositionBeforeThisMove s" and q = "playerPosition s"
          and m = "playerMoney s" and b = b and ph = "gamePhase s"
          and cd = "choiceDetails s" and an = "isAnimating s"
          and l = "playerLap s" and cb = "currentBoss s" and rb = "remainingBossRolls s"
          and h = "currentBossHP s" and mh = "currentBossMaxHP s" and th = "currentDiceThrows s"])
     simp

lemma moved_boss:
  "moved s (s\<lparr>currentBoss := cb, remainingBossRolls := rb, currentBossHP := h,
              currentBossMaxHP := mh, currentDiceThrows := th, gamePhase := ph,
              isAnimating := an\<rparr>)"
  by (rule movedI[where ?q0.0 = "lastPlayerPositionBeforeThisMove s" and q = "playerPosition s"
          and m = "playerMoney s" and b = "boardSquares s" and ph = ph
          and cd = "choiceDetails s" and an = an
          and l = "playerLap s" and cb = cb and rb = rb and h = h and mh = mh and th = th])
     simp

text \<open>The three ways a move from a square of the board ends.\<close>

lemma movePlayer_forward_result:
  assumes "\<not> isGameOver s" "0 < steps" "0 \<le> playerPosition s"
    "playerPosition s + steps < totalBoardSquares s"
  shows "\<exists>s'. movePlayer steps s g = Inr s' \<and> moved s s' \<and>
           playerPosition s' = playerPosition s + steps \<and> playerLap s' = playerLap s \<and>
           (gamePhase s' = rolling \<or> gamePhase s' = awaiting_choice)"
proof -
  define t where "t = s\<lparr>gamePhase := player_moving_animation,
                lastPlayerPositionBeforeThisMove := playerPosition s,
                playerPosition := playerPosition s + steps,
                playerMoney := playerMoney s +
                  moneyAlong (boardSquares s) (playerPosition s) (nat steps),
                playerLap := playerLap s\<rparr>"
  have m: "movePlayer steps s g = afterMove t False g"
    unfolding t_def using movePlayer_forward[OF assms, of g] by simp
  have st: "moved s t" unfolding t_def by (rule moved_start)
  obtain s' where s': "afterMove t False g = Inr s'" "moved t s'"
    "playerPosition s' = playerPosition t" "playerLap s' = playerLap t"
    "\<not> isGameOver t \<longrightarrow> gamePhase s' = rolling \<or> gamePhase s' = awaiting_choice"
    using afterMove_moved[of False t g] by auto
  have "moved s s'" using st s'(2) by (rule moved_trans)
  with m s' assms(1) show ?thesis by (simp add: t_def)
qed

lemma movePlayer_backward_result:
  assumes "\<not> isGameOver s" "steps \<le> 0" "0 \<le> playerPosition s"
    "playerPosition s < totalBoardSquares s"
  shows "\<exists>s'. movePlayer steps s g = Inr s' \<and> moved s s' \<and>
           playerPosition s' = (playerPosition s + steps) mod totalBoardSquares s \<and>
           playerLap s' = playerLap s \<and>
           (gamePhase s' = rolling \<or> gamePhase s' = awaiting_choice)"
proof -
  define t where "t = s\<lparr>gamePhase := player_moving_animation,
                lastPlayerPositionBeforeThisMove := playerPosition s,
                playerPosition := (playerPosition s + steps) mod totalBoardSquares s,
                playerMoney := playerMoney s, playerLap := playerLap s\<rparr>"
  have m: "movePlayer steps s g = afterMove t False g"
    unfolding t_def using movePlayer_backward[OF assms, of g] by simp
  have st: "moved s t" unfolding t_def by (rule moved_start)
  obtain s' where s': "afterMove t False g = Inr s'" "moved t s'"
    "playerPosition s' = playerPosition t" "playerLap s' = playerLap t"
    "\<not> isGameOver t \<longrightarrow> gamePhase s' = rolling \<or> gamePhase s' = awaiting_choice"
    using afterMove_moved[of False t g] by auto
  have "moved s s'" using st s'(2) by (rule moved_trans)
  with m s' assms(1) show ?thesis by (simp add: t_def)
qed

lemma movePlayer_wrap_lap:
  assumes "\<not> isGameOver s" "0 < steps" "0 \<le> playerPosition s"
    "playerPosition s < totalBoardSquares s"
    "totalBoardSquares s \<le> playerPosition s + steps"
    "playerLap s + 1 \<noteq> lapsToComplete (currentStageConfig s)"
  shows "\<exists>s'. movePlayer steps s g = Inr s' \<and> moved s s' \<and>
           playerPosition s' = 0 \<and> playerLap s' = playerLap s + 1 \<and>
           (gamePhase s' = rolling \<or> gamePhase s' = awaiting_choice)"
proof -
  define s2 where "s2 = s\<lparr>gamePhase := player_moving_animation,
                         lastPlayerPositionBeforeThisMove := playerPosition s,
                         playerPosition := 0,
                         playerMoney := playerMoney s +
                           moneyAlong (boardSquares s) (playerPosition s)
                             (nat (totalBoardSquares s - playerPosition s - 1)),
                         playerLap := playerLap s + 1\<rparr>"
  obtain b g' where lap: "setupLapEffects s2 g = (s2\<lparr>boardSquares := b\<rparr>, g')"
    using setupLapEffects_board by blast
  define t where "t = s2\<lparr>boardSquares := b\<rparr>"
  have m: "movePlayer steps s g = afterMove t True g'"
    using movePlayer_wrap[OF assms(1-5), of g] assms(6)
    unfolding s2_def[symmetric] lap t_def by simp
  have st: "moved s t"
    unfolding t_def using moved_start[of s] moved_board[of s2 b] unfolding s2_def
    by (rule moved_trans)
  have "\<not> (True \<and> playerLap t = lapsToComplete (currentStageConfig t))"
    using assms(6) by (simp add: t_def s2_def)
  from afterMove_moved[OF this, of g']
  obtain s' where s': "afterMove t True g' = Inr s'" "moved t s'"
    "playerPosition s' = playerPosition t" "playerLap s' = playerLap t"
    "\<not> isGameOver t \<longrightarrow> gamePhase s' = rolling \<or> gamePhase s' = awaiting_choice"
    by auto
  have "moved s s'" using st s'(2) by (rule moved_trans)
  with m s' assms(1) show ?thesis by (simp add: t_def s2_def)
qed

lemma movePlayer_wrap_boss:
  assumes "\<not> isGameOver s" "0 < steps" "0 \<le> playerPosition s"
    "playerPosition s < totalBoardSquares s"
    "totalBoardSquares s \<le> playerPosition s + steps"
    "playerLap s + 1 = lapsToComplete (currentStageConfig s)"
    "STAGE_CONFIGS (playerStage s) = Some c"
  shows "\<exists>s'. movePlayer steps s g = Inr s' \<and> moved s s' \<and>
           playerPosition s' = 0 \<and> playerLap s' = playerLap s + 1 \<and>
           gamePhase s' = boss_encounter \<and> currentDiceThrows s' = [] \<and>
           currentBossMaxHP s' = Some (hp (bossDefeatCondition c)) \<and>
           currentBossHP s' = Some (hp (bossDefeatCondition c)) \<and>
           remainingBossRolls s' = diceThrows (bossDefeatCondition c) \<and> currentBoss s' \<noteq> None"
proof -
  define s2 where "s2 = s\<lparr>gamePhase := boss_encounter,
                         lastPlayerPositionBeforeThisMove := playerPosition s,
                         playerPosition := 0,
                         playerMoney := playerMoney s +
                           moneyAlong (boardSquares s) (playerPosition s)
                             (nat (totalBoardSquares s - playerPosition s - 1)),
                         playerLap := playerLap s + 1\<rparr>"
  have m: "movePlayer steps s g = handleBossEncounter (s2\<lparr>isAnimating := False\<rparr>)"
    using movePlayer_wrap[OF assms(1-5), of g] assms(6) unfolding s2_def by (cases s) simp
  have st: "moved s s2" unfolding s2_def by (rule moved_start)
  have "handleBossEncounter (s2\<lparr>isAnimating := False\<rparr>) =
          Inr (s2\<lparr>currentBoss := Some \<lparr>boss_diceThrows = diceThrows (bossDefeatCondition c),
                    boss_hp = hp (bossDefeatCondition c),
                    boss_bribeCost = bribeCost (bossDefeatCondition c),
                    boss_image = bossImage c, boss_name = bossName c\<rparr>,
                 remainingBossRolls := diceThrows (bossDefeatCondition c),
                 currentBossHP := Some (hp (bossDefeatCondition c)),
                 currentBossMaxHP := Some (hp (bossDefeatCondition c)),
                 currentDiceThrows := [], gamePhase := boss_encounter, isAnimating := False\<rparr>)"
    using assms(7) by (simp add: handleBossEncounter_def Let_def s2_def)
  moreover have "moved s (s2\<lparr>currentBoss := Some \<lparr>boss_diceThrows = diceThrows (bossDefeatCondition c),
                    boss_hp = hp (bossDefeatCondition c),
                    boss_bribeCost = bribeCost (bossDefeatCondition c),
                    boss_image = bossImage c, boss_name = bossName c\<rparr>,
                 remainingBossRolls := diceThrows (bossDefeatCondition c),
                 currentBossHP := Some (hp (bossDefeatCondition c)),
                 currentBossMaxHP := Some (hp (bossDefeatCondition c)),
                 currentDiceThrows := [], gamePhase := boss_encounter, isAnimating := False\<rparr>)"
    using st moved_boss by (rule moved_trans)
  ultimately show ?thesis using m by (simp add: s2_def)
qed

lemma getRandomInt_range:
  assumes "valid_rng g" "lo \<le> hi"
  shows "lo \<le> fst (getRandomInt lo hi g)" "fst (getRandomInt lo hi g) \<le> hi"
proof -
  have u: "0 \<le> g 0" "g 0 < 1" using assms(1) by (simp_all add: valid_rng_def)
  have n: "0 < real_of_int (hi - lo + 1)" using assms(2) by simp
  have "0 \<le> g 0 * real_of_int (hi - lo + 1)" using u(1) n by simp
  then have a: "0 \<le> \<lfloor>g 0 * real_of_int (hi - lo + 1)\<rfloor>" by simp
  have "g 0 * real_of_int (hi - lo + 1) < 1 * real_of_int (hi - lo + 1)"
    using u(2) n by (intro mult_strict_right_mono) simp_all
  then have "g 0 * real_of_int (hi - lo + 1) < real_of_int (hi - lo + 1)"
    by (simp only: mult_1)
  then have "\<lfloor>g 0 * real_of_int (hi - lo + 1)\<rfloor> < hi - lo + 1"
    by (rule floor_less_iff[THEN iffD2])
  with a show "lo \<le> fst (getRandomInt lo hi g)" "fst (getRandomInt lo hi g) \<le> hi"
    by (simp_all add: getRandomInt_def Math_random_def)
qed

lemma valid_rng_tl: "valid_rng g \<Longrightarrow> valid_rng (rng_tl g)"
  by (simp add: valid_rng_def rng_tl_def)

lemma getRandomInt_snd: "snd (getRandomInt lo hi g) = rng_tl g"
  by (simp add: getRandomInt_def Math_random_def)

lemma initializeGame_shape:
  "\<exists>b. initializeGame s g =
     s\<lparr>playerStage := 1, isGameOver := False, reservedDice := [], playerMoney := 0,
       boardRows := rows (currentStageConfig s), boardCols := cols (currentStageConfig s),
       playerLap := 1, playerPosition := 0, lastPlayerPositionBeforeThisMove := 0,
       lastDiceRoll := None, choiceDetails := None, boardSquares := b,
       gamePhase := rolling, isAnimating := False\<rparr>"
proof -
  define s1 where "s1 = s\<lparr>playerStage := 1, isGameOver := False, isAnimating := False,
                 reservedDice := [], playerMoney := 0\<rparr>"
  obtain b g' where e: "setupStage s1 g =
     (s1\<lparr>boardRows := rows (currentStageConfig s1), boardCols := cols (currentStageConfig s1),
        playerLap := 1, playerPosition := 0, lastPlayerPositionBeforeThisMove := 0,
        lastDiceRoll := None, choiceDetails := None, boardSquares := b,
        gamePhase := rolling, isAnimating := False\<rparr>, g')"
    using setupStage_board by blast
  have "initializeGame s g =
     s1\<lparr>boardRows := rows (currentStageConfig s1), boardCols := cols (currentStageConfig s1),
        playerLap := 1, playerPosition := 0, lastPlayerPositionBeforeThisMove := 0,
        lastDiceRoll := None, choiceDetails := None, boardSquares := b,
        gamePhase := rolling, isAnimating := False\<rparr>"
    unfolding initializeGame_def Let_def s1_def[symmetric] e by simp
  then have "initializeGame s g =
     s\<lparr>playerStage := 1, isGameOver := False, reservedDice := [], playerMoney := 0,
       boardRows := rows (currentStageConfig s), boardCols := cols (currentStageConfig s),
       playerLap := 1, playerPosition := 0, lastPlayerPositionBeforeThisMove := 0,
       lastDiceRoll := None, choiceDetails := None, boardSquares := b,
       gamePhase := rolling, isAnimating := False\<rparr>"
    by (cases s) (simp add: s1_def)
  then show ?thesis by blast
qed

lemma startedGameAt_fields:
  "isGameOver (startedGameAt p) = False" "playerPosition (startedGameAt p) = p"
  "totalBoardSquares (startedGameAt p) = 20" "playerLap (startedGameAt p) = 1"
  "lapsToComplete (currentStageConfig (startedGameAt p)) = 3"
  "gamePhase (startedGameAt p) = rolling" "isAnimating (startedGameAt p) = False"
  "reservedDice (startedGameAt p) = []" "playerStage (startedGameAt p) = 1"
proof -
  obtain b where e: "startedGame =
     initialState\<lparr>playerStage := 1, isGameOver := False, reservedDice := [], playerMoney := 0,
       boardRows := rows (currentStageConfig initialState),
       boardCols := cols (currentStageConfig initialState),
       playerLap := 1, playerPosition := 0, lastPlayerPositionBeforeThisMove := 0,
       lastDiceRoll := None, choiceDetails := None, boardSquares := b,
       gamePhase := rolling, isAnimating := False\<rparr>"
    unfolding startedGame_def using initializeGame_shape by blast
  show "isGameOver (startedGameAt p) = False" "playerPosition (startedGameAt p) = p"
  "totalBoardSquares (startedGameAt p) = 20" "playerLap (startedGameAt p) = 1"
  "lapsToComplete (currentStageConfig (startedGameAt p)) = 3"
  "gamePhase (startedGameAt p) = rolling" "isAnimating (startedGameAt p) = False"
  "reservedDice (startedGameAt p) = []" "playerStage (startedGameAt p) = 1"
    unfolding startedGameAt_def e
    by (simp_all add: initialState_def totalBoardSquares_def stage1_def)
qed

text \<open>
  C3, as the claim states it: after a step onto index 0 that does not complete the stage,
  the player goes on with the rest of the roll. The loop instead leaves at index 0
  (\<^verbatim>\<open>break\<close>): from index 19 of the 20 squares of stage 1, in lap 1 of 3, a move of 3
  steps ends on index 0, not on index 2.
\<close>

theorem move_stops_on_start:
  "totalBoardSquares (startedGameAt 19) = 20 \<and> playerLap (startedGameAt 19) = 1 \<and>
   lapsToComplete (currentStageConfig (startedGameAt 19)) = 3 \<and>
   map_sum id playerPosition (movePlayer 3 (startedGameAt 19) (constRng 0)) = Inr 0 \<and>
   map_sum id playerLap (movePlayer 3 (startedGameAt 19) (constRng 0)) = Inr 2"
proof -
  have "\<exists>s'. movePlayer 3 (startedGameAt 19) (constRng 0) = Inr s' \<and>
          moved (startedGameAt 19) s' \<and> playerPosition s' = 0 \<and>
          playerLap s' = playerLap (startedGameAt 19) + 1 \<and>
          (gamePhase s' = rolling \<or> gamePhase s' = awaiting_choice)"
    by (rule movePlayer_wrap_lap) (simp_all add: startedGameAt_fields)
  then show ?thesis by (auto simp add: startedGameAt_fields)
qed

text \<open>
  C3, amended. A forward move that stays below the number of squares lands where the roll
  says and leaves playerLap alone. A forward move that reaches index 0 stops there, with
  playerLap one higher and the rest of the roll dropped: it goes straight into the boss
  encounter when the new playerLap equals lapsToComplete, and otherwise sets up the lap
  effects again and resolves the landing on index 0.
\<close>

theorem lap_completion_stops_move:
  assumes "\<not> isGameOver s" and "0 < steps" and "0 \<le> playerPosition s"
    and "playerPosition s < totalBoardSquares s"
  shows
    "(playerPosition s + steps < totalBoardSquares s \<longrightarrow>
        (\<exists>s'. movePlayer steps s g = Inr s' \<and> playerPosition s' = playerPosition s + steps \<and>
              playerLap s' = playerLap s)) \<and>
     (totalBoardSquares s \<le> playerPosition s + steps \<longrightarrow>
      playerLap s + 1 = lapsToComplete (currentStageConfig s) \<longrightarrow>
      STAGE_CONFIGS (playerStage s) = Some c \<longrightarrow>
        (\<exists>s'. movePlayer steps s g = Inr s' \<and> playerPosition s' = 0 \<and>
              playerLap s' = playerLap s + 1 \<and> gamePhase s' = boss_encounter)) \<and>
     (totalBoardSquares s \<le> playerPosition s + steps \<longrightarrow>
      playerLap s + 1 \<noteq> lapsToComplete (currentStageConfig s) \<longrightarrow>
        (\<exists>s'. movePlayer steps s g = Inr s' \<and>
              afterMove
                (fst (setupLapEffects
                   (s\<lparr>gamePhase := player_moving_animation,
                      lastPlayerPositionBeforeThisMove := playerPosition s,
                      playerPosition := 0,
                      playerMoney := playerMoney s +
                        moneyAlong (boardSquares s) (playerPosition s)
                          (nat (totalBoardSquares s - playerPosition s - 1)),
                      playerLap := playerLap s + 1\<rparr>) g))
                True
                (snd (setupLapEffects
                   (s\<lparr>gamePhase := player_moving_animation,
                      lastPlayerPositionBeforeThisMove := playerPosition s,
                      playerPosition := 0,
                      playerMoney := playerMoney s +
                        moneyAlong (boardSquares s) (playerPosition s)
                          (nat (totalBoardSquares s - playerPosition s - 1)),
                      playerLap := playerLap s + 1\<rparr>) g)) = Inr s' \<and>
              playerPosition s' = 0 \<and> playerLap s' = playerLap s + 1 \<and>
              (gamePhase s' = rolling \<or> gamePhase s' = awaiting_choice)))"
proof (intro conjI impI)
  assume "playerPosition s + steps < totalBoardSquares s"
  with assms show "\<exists>s'. movePlayer steps s g = Inr s' \<and>
      playerPosition s' = playerPosition s + steps \<and> playerLap s' = playerLap s"
    using movePlayer_forward_result[of s steps g] by blast
next
  assume "totalBoardSquares s \<le> playerPosition s + steps"
    "playerLap s + 1 = lapsToComplete (currentStageConfig s)"
    "STAGE_CONFIGS (playerStage s) = Some c"
  with assms show "\<exists>s'. movePlayer steps s g = Inr s' \<and> playerPosition s' = 0 \<and>
              playerLap s' = playerLap s + 1 \<and> gamePhase s' = boss_encounter"
    using movePlayer_wrap_boss[of s steps c g] by blast
next
  assume a: "totalBoardSquares s \<le> playerPosition s + steps"
    "playerLap s + 1 \<noteq> lapsToComplete (currentStageConfig s)"
  obtain s' where s': "movePlayer steps s g = Inr s'" "playerPosition s' = 0"
    "playerLap s' = playerLap s + 1" "gamePhase s' = rolling \<or> gamePhase s' = awaiting_choice"
    using movePlayer_wrap_lap[OF assms a, of g] by blast
  moreover note movePlayer_wrap[OF assms a(1), of g]
  ultimately show "\<exists>s'. movePlayer steps s g = Inr s' \<and>
              afterMove
                (fst (setupLapEffects
                   (s\<lparr>gamePhase := player_moving_animation,
                      lastPlayerPositionBeforeThisMove := playerPosition s,
                      playerPosition := 0,
                      playerMoney := playerMoney s +
                        moneyAlong (boardSquares s) (playerPosition s)
                          (nat (totalBoardSquares s - playerPosition s - 1)),
                      playerLap := playerLap s + 1\<rparr>) g))
                True
                (snd (setupLapEffects
                   (s\<lparr>gamePhase := player_moving_animation,
                      lastPlayerPositionBeforeThisMove := playerPosition s,
                      playerPosition := 0,
                      playerMoney := playerMoney s +
                        moneyAlong (boardSquares s) (playerPosition s)
                          (nat (totalBoardSquares s - playerPosition s - 1)),
                      playerLap := playerLap s + 1\<rparr>) g)) = Inr s' \<and>
              playerPosition s' = 0 \<and> playerLap s' = playerLap s + 1 \<and>
              (gamePhase s' = rolling \<or> gamePhase s' = awaiting_choice)"
    using a(2) by simp
qed

theorem lap_completion_stops_move_witness:
  "(\<exists>s'. movePlayer 3 (startedGameAt 4) (constRng 0) = Inr s' \<and> playerPosition s' = 7 \<and>
         playerLap s' = 1) \<and>
   (\<exists>s'. movePlayer 3 ((startedGameAt 19)\<lparr>playerLap := 2\<rparr>) (constRng 0) = Inr s' \<and>
         playerPosition s' = 0 \<and> playerLap s' = 3 \<and> gamePhase s' = boss_encounter) \<and>
   (\<exists>s'. movePlayer 3 (startedGameAt 19) (constRng 0) = Inr s' \<and> playerPosition s' = 0 \<and>
         playerLap s' = 2 \<and> (gamePhase s' = rolling \<or> gamePhase s' = awaiting_choice))"
proof -
  let ?a = "startedGameAt 4" and ?b = "(startedGameAt 19)\<lparr>playerLap := 2\<rparr>"
    and ?c = "startedGameAt 19"
  have a: "\<not> isGameOver ?a" "(0::int) < 3" "0 \<le> playerPosition ?a"
    "playerPosition ?a < totalBoardSquares ?a" "playerPosition ?a + 3 < totalBoardSquares ?a"
    and a': "playerPosition ?a + 3 = 7" "playerLap ?a = 1"
    by (simp_all add: startedGameAt_fields)
  have b: "\<not> isGameOver ?b" "(0::int) < 3" "0 \<le> playerPosition ?b"
    "playerPosition ?b < totalBoardSquares ?b" "totalBoardSquares ?b \<le> playerPosition ?b + 3"
    "playerLap ?b + 1 = lapsToComplete (currentStageConfig ?b)"
    "STAGE_CONFIGS (playerStage ?b) = Some stage1"
    and b': "playerLap ?b + 1 = 3"
    by (simp_all add: startedGameAt_fields STAGE_CONFIGS_def)
  have c: "\<not> isGameOver ?c" "(0::int) < 3" "0 \<le> playerPosition ?c"
    "playerPosition ?c < totalBoardSquares ?c" "totalBoardSquares ?c \<le> playerPosition ?c + 3"
    "playerLap ?c + 1 \<noteq> lapsToComplete (currentStageConfig ?c)"
    and c': "playerLap ?c + 1 = 2"
    by (simp_all add: startedGameAt_fields)
  from lap_completion_stops_move[OF a(1-4), where g = "constRng 0"] a(5)
  have "\<exists>s'. movePlayer 3 ?a (constRng 0) = Inr s' \<and> playerPosition s' = playerPosition ?a + 3 \<and>
              playerLap s' = playerLap ?a"
    by blast
  moreover
  from lap_completion_stops_move[OF b(1-4), where g = "constRng 0" and c = stage1] b(5-)
  have "\<exists>s'. movePlayer 3 ?b (constRng 0) = Inr s' \<and> playerPosition s' = 0 \<and>
              playerLap s' = playerLap ?b + 1 \<and> gamePhase s' = boss_encounter"
    by blast
  moreover
  from lap_completion_stops_move[OF c(1-4), where g = "constRng 0"] c(5-)
  have "\<exists>s'. movePlayer 3 ?c (constRng 0) = Inr s' \<and> playerPosition s' = 0 \<and>
              playerLap s' = playerLap ?c + 1 \<and>
              (gamePhase s' = rolling \<or> gamePhase s' = awaiting_choice)"
    by blast
  ultimately show ?thesis
    unfolding a' b' c' by simp
qed

lemma rollDice_out_of_range:
  assumes "gamePhase s = rolling" "\<not> isGameOver s" "\<not> isAnimating s"
    "i < 0 \<or> int (length (reservedDice s)) \<le> i"
  shows "rollDice i s g =
           movePlayer (fst (getRandomInt 1 6 g))
             (s\<lparr>isAnimating := True, gamePhase := dice_rolling_animation,
                lastDiceRoll :=
                  Some \<lparr>roll_value = \<bar>fst (getRandomInt 1 6 g)\<bar>,
                        roll_type = (if fst (getRandomInt 1 6 g) < 0 then REVERSE_RANDOM else NORMAL),
                        roll_originalType = NORMAL,
                        roll_direction = (if 0 \<le> fst (getRandomInt 1 6 g) then forward else backward)\<rparr>\<rparr>)
             (snd (getRandomInt 1 6 g))"
proof -
  have c: "(0 \<le> i \<and> i < int (length (reservedDice s))) = False" using assms(4) by auto
  show ?thesis
    using assms(1-3)
    by (simp add: rollDice_def Let_def c rollSteps_def case_prod_beta)
qed

text \<open>
  C5, as the claim states it: an index outside the bag makes rollDice do nothing. It
  rolls instead: from the state after initializeGame (index 0, empty bag, phase rolling),
  rollDice(7) with Math.random() = 0 moves the player to index 1.
\<close>

theorem out_of_range_index_moves:
  "gamePhase (startedGameAt 0) = rolling \<and> reservedDice (startedGameAt 0) = [] \<and>
   playerPosition (startedGameAt 0) = 0 \<and>
   map_sum id playerPosition (rollDice 7 (startedGameAt 0) (constRng 0)) = Inr 1"
proof -
  let ?s = "startedGameAt 0"
  have r: "fst (getRandomInt 1 6 (constRng 0)) = 1"
    by (simp add: getRandomInt_def Math_random_def constRng_def)
  define t where "t = ?s\<lparr>isAnimating := True, gamePhase := dice_rolling_animation,
                lastDiceRoll :=
                  Some \<lparr>roll_value = 1, roll_type = NORMAL, roll_originalType = NORMAL,
                        roll_direction = forward\<rparr>\<rparr>"
  have "rollDice 7 ?s (constRng 0) = movePlayer 1 t (snd (getRandomInt 1 6 (constRng 0)))"
    using rollDice_out_of_range[of ?s 7 "constRng 0"]
    by (simp add: startedGameAt_fields r t_def)
  moreover have "\<exists>s'. movePlayer 1 t (snd (getRandomInt 1 6 (constRng 0))) = Inr s' \<and> moved t s' \<and>
           playerPosition s' = playerPosition t + 1 \<and> playerLap s' = playerLap t \<and>
           (gamePhase s' = rolling \<or> gamePhase s' = awaiting_choice)"
    by (rule movePlayer_forward_result) (simp_all add: t_def startedGameAt_fields)
  ultimately show ?thesis
    by (auto simp add: startedGameAt_fields t_def)
qed

text \<open>
  C5, amended. In the rolling phase rollDice with an index outside the bag does exactly
  what it does without an index. When the game is over or an animation is running
  (isGameOver or isAnimating) that is nothing, as for every index. Otherwise the call is
  not rejected: rollDice takes no die from the bag and rolls the ephemeral Normal die,
  and the player, standing on a square of the board in a configured stage, moves by the
  1 to 6 steps rolled (up to index 0 when the roll reaches it); the bag is as it was.
\<close>

theorem out_of_range_index_rolls_normal:
  assumes "gamePhase s = rolling"
    and "i < 0 \<or> int (length (reservedDice s)) \<le> i"
  shows
    "rollDice i s g = rollDice (- 1) s g \<and>
     (isGameOver s \<or> isAnimating s \<longrightarrow> rollDice i s g = Inr s) \<and>
     (\<not> isGameOver s \<longrightarrow> \<not> isAnimating s \<longrightarrow> valid_rng g \<longrightarrow>
      0 \<le> playerPosition s \<longrightarrow> playerPosition s < totalBoardSquares s \<longrightarrow>
      STAGE_CONFIGS (playerStage s) = Some c \<longrightarrow>
        (\<exists>s' r. rollDice i s g = Inr s' \<and> r = fst (getRandomInt 1 6 g) \<and> 1 \<le> r \<and> r \<le> 6 \<and>
           reservedDice s' = reservedDice s \<and>
           lastDiceRoll s' =
             Some \<lparr>roll_value = r, roll_type = NORMAL, roll_originalType = NORMAL,
                   roll_direction = forward\<rparr> \<and>
           playerPosition s' =
             (if playerPosition s + r < totalBoardSquares s then playerPosition s + r else 0)))"
proof (intro conjI impI)
  show "rollDice i s g = rollDice (- 1) s g"
  proof (cases "isGameOver s \<or> isAnimating s")
    case True
    then show ?thesis using assms(1) by (auto simp add: rollDice_def)
  next
    case False
    then have f: "\<not> isGameOver s" "\<not> isAnimating s" by simp_all
    have "rollDice (- 1) s g =
           movePlayer (fst (getRandomInt 1 6 g))
             (s\<lparr>isAnimating := True, gamePhase := dice_rolling_animation,
                lastDiceRoll :=
                  Some \<lparr>roll_value = \<bar>fst (getRandomInt 1 6 g)\<bar>,
                        roll_type = (if fst (getRandomInt 1 6 g) < 0 then REVERSE_RANDOM else NORMAL),
                        roll_originalType = NORMAL,
                        roll_direction = (if 0 \<le> fst (getRandomInt 1 6 g) then forward else backward)\<rparr>\<rparr>)
             (snd (getRandomInt 1 6 g))"
      using assms(1) f by (intro rollDice_out_of_range) simp_all
    then show ?thesis
      using rollDice_out_of_range[OF assms(1) f assms(2), of g] by simp
  qed
next
  assume "isGameOver s \<or> isAnimating s"
  then show "rollDice i s g = Inr s" using assms(1) by (auto simp add: rollDice_def)
next
  assume f: "\<not> isGameOver s" "\<not> isAnimating s"
  assume a: "valid_rng g" "0 \<le> playerPosition s" "playerPosition s < totalBoardSquares s"
    "STAGE_CONFIGS (playerStage s) = Some c"
  define r where "r = fst (getRandomInt 1 6 g)"
  have r: "1 \<le> r" "r \<le> 6" unfolding r_def using getRandomInt_range[OF a(1), of 1 6] by simp_all
  define t where "t = s\<lparr>isAnimating := True, gamePhase := dice_rolling_animation,
                lastDiceRoll :=
                  Some \<lparr>roll_value = r, roll_type = NORMAL, roll_originalType = NORMAL,
                        roll_direction = forward\<rparr>\<rparr>"
  have e: "rollDice i s g = movePlayer r t (snd (getRandomInt 1 6 g))"
    using rollDice_out_of_range[OF assms(1) f assms(2), of g] r
    unfolding r_def[symmetric] t_def by simp
  have t: "\<not> isGameOver t" "0 < r" "0 \<le> playerPosition t" "playerPosition t < totalBoardSquares t"
    "STAGE_CONFIGS (playerStage t) = Some c"
    using f(1) a r by (simp_all add: t_def totalBoardSquares_def)
  have "\<exists>s'. movePlayer r t (snd (getRandomInt 1 6 g)) = Inr s' \<and> moved t s' \<and>
          playerPosition s' =
             (if playerPosition t + r < totalBoardSquares t then playerPosition t + r else 0)"
  proof (cases "playerPosition t + r < totalBoardSquares t")
    case True
    then show ?thesis using movePlayer_forward_result[OF t(1-3) True] by auto
  next
    case False
    then have w: "totalBoardSquares t \<le> playerPosition t + r" by simp
    show ?thesis
    proof (cases "playerLap t + 1 = lapsToComplete (currentStageConfig t)")
      case True
      then show ?thesis using movePlayer_wrap_boss[OF t(1-4) w True t(5)] False by auto
    next
      case False
      then show ?thesis using movePlayer_wrap_lap[OF t(1-4) w False] w by auto
    qed
  qed
  then obtain s' where s': "movePlayer r t (snd (getRandomInt 1 6 g)) = Inr s'" "moved t s'"
     "playerPosition s' =
             (if playerPosition t + r < totalBoardSquares t then playerPosition t + r else 0)"
    by blast
  have "reservedDice s' = reservedDice t" "lastDiceRoll s' = lastDiceRoll t"
    using moved_fields[OF s'(2)] by simp_all
  with s' e r show "\<exists>s' r. rollDice i s g = Inr s' \<and> r = fst (getRandomInt 1 6 g) \<and> 1 \<le> r \<and> r \<le> 6 \<and>
           reservedDice s' = reservedDice s \<and>
           lastDiceRoll s' =
             Some \<lparr>roll_value = r, roll_type = NORMAL, roll_originalType = NORMAL,
                   roll_direction = forward\<rparr> \<and>
           playerPosition s' =
             (if playerPosition s + r < totalBoardSquares s then playerPosition s + r else 0)"
    unfolding r_def[symmetric] by (simp add: t_def totalBoardSquares_def)
qed

theorem out_of_range_index_rolls_normal_witness:
  "rollDice 7 (startedGameAt 0) (constRng 0) = rollDice (- 1) (startedGameAt 0) (constRng 0) \<and>
   (\<exists>s'. rollDice 7 (startedGameAt 0) (constRng 0) = Inr s' \<and> reservedDice s' = [] \<and>
         playerPosition s' = 1 \<and>
         lastDiceRoll s' =
           Some \<lparr>roll_value = 1, roll_type = NORMAL, roll_originalType = NORMAL,
                 roll_direction = forward\<rparr>) \<and>
   gamePhase ((startedGameAt 0)\<lparr>isGameOver := True\<rparr>) = rolling \<and>
   rollDice 7 ((startedGameAt 0)\<lparr>isGameOver := True\<rparr>) (constRng 0)
     = Inr ((startedGameAt 0)\<lparr>isGameOver := True\<rparr>)"
proof -
  let ?s = "startedGameAt 0"
  let ?o = "(startedGameAt 0)\<lparr>isGameOver := True\<rparr>"
  have a: "gamePhase ?s = rolling" "7 < 0 \<or> int (length (reservedDice ?s)) \<le> 7"
    and f: "\<not> isGameOver ?s" "\<not> isAnimating ?s"
    and b: "valid_rng (constRng 0)" "0 \<le> playerPosition ?s"
    "playerPosition ?s < totalBoardSquares ?s" "STAGE_CONFIGS (playerStage ?s) = Some stage1"
    and c: "fst (getRandomInt 1 6 (constRng 0)) = 1" "reservedDice ?s = []"
    "playerPosition ?s + 1 < totalBoardSquares ?s" "playerPosition ?s + 1 = 1"
    by (simp_all add: startedGameAt_fields STAGE_CONFIGS_def valid_rng_def constRng_def
          getRandomInt_def Math_random_def)
  have o: "gamePhase ?o = rolling" "7 < 0 \<or> int (length (reservedDice ?o)) \<le> 7"
    "isGameOver ?o \<or> isAnimating ?o"
    by (simp_all add: startedGameAt_fields)
  from out_of_range_index_rolls_normal[OF a, where g = "constRng 0" and c = stage1] f b
  have "rollDice 7 ?s (constRng 0) = rollDice (- 1) ?s (constRng 0)"
    and "\<exists>s' r. rollDice 7 ?s (constRng 0) = Inr s' \<and> r = fst (getRandomInt 1 6 (constRng 0)) \<and>
           1 \<le> r \<and> r \<le> 6 \<and> reservedDice s' = reservedDice ?s \<and>
           lastDiceRoll s' =
             Some \<lparr>roll_value = r, roll_type = NORMAL, roll_originalType = NORMAL,
                   roll_direction = forward\<rparr> \<and>
           playerPosition s' =
             (if playerPosition ?s + r < totalBoardSquares ?s then playerPosition ?s + r else 0)"
    by blast+
  moreover
  from out_of_range_index_rolls_normal[OF o(1,2), where g = "constRng 0"] o(3)
  have "rollDice 7 ?o (constRng 0) = Inr ?o" by blast
  ultimately show ?thesis
    unfolding c using c(3,4) o(1) by auto
qed

subsection \<open>The displayed boss HP\<close>

lemma encounterInv_other_phase: "gamePhase s \<noteq> boss_encounter \<Longrightarrow> encounterInv s"
  by (simp add: encounterInv_def)

lemma handleBossEncounter_inv: "handleBossEncounter s = Inr t \<Longrightarrow> encounterInv t"
  by (auto simp add: handleBossEncounter_def Let_def encounterInv_def bossHpInSync_def
        split: option.splits)

lemma moveStep_boss_inv: "moveStep d s g = Inr (Leave (BossStarted t)) \<Longrightarrow> encounterInv t"
proof -
  assume a: "moveStep d s g = Inr (Leave (BossStarted t))"
  have "\<exists>u. handleBossEncounter u = Inr t"
  proof (cases "isGameOver s")
    case True
    with a show ?thesis by (simp add: moveStep_def)
  next
    case False
    show ?thesis
    proof (cases "d > 0")
      case d: True
      show ?thesis
      proof (cases "js_rem (playerPosition s + 1) (totalBoardSquares s)")
        case None
        with a False d show ?thesis by (simp add: moveStep_def)
      next
        case (Some p)
        show ?thesis
        proof (cases "p = 0")
          case True
          with a False d Some show ?thesis
            by (auto simp add: moveStep_def Let_def case_prod_beta split: if_splits sum.splits)
        next
          case p: False
          have "\<exists>u. moveStep d s g = Inr (Continue u)"
            using False d Some p
            by (simp add: moveStep_def Let_def
                  split: option.splits effect_type.splits effect_details.splits)
          with a show ?thesis by auto
        qed
      qed
    next
      case d: False
      with a False show ?thesis by (simp add: moveStep_def split: option.splits)
    qed
  qed
  then show ?thesis using handleBossEncounter_inv by blast
qed

lemma moveLoop_boss_inv: "moveLoop n d s g = Inr (BossStarted t) \<Longrightarrow> encounterInv t"
proof (induction n arbitrary: s)
  case 0
  then show ?case by simp
next
  case (Suc n)
  show ?case
  proof (cases "moveStep d s g")
    case (Inl e)
    with Suc.prems show ?thesis by simp
  next
    case (Inr out)
    show ?thesis
    proof (cases out)
      case (Continue u)
      with Inr Suc.prems have "moveLoop n d u g = Inr (BossStarted t)" by simp
      then show ?thesis by (rule Suc.IH)
    next
      case (Leave mo)
      with Inr Suc.prems have "moveStep d s g = Inr (Leave (BossStarted t))" by simp
      then show ?thesis by (rule moveStep_boss_inv)
    qed
  qed
qed

lemma afterMove_inv: "afterMove s passed g = Inr t \<Longrightarrow> encounterInv t"
proof (cases "passed \<and> playerLap s = lapsToComplete (currentStageConfig s)")
  case True
  assume "afterMove s passed g = Inr t"
  with True have "handleBossEncounter (s\<lparr>gamePhase := boss_encounter, isAnimating := False\<rparr>) = Inr t"
    by (simp add: afterMove_def)
  then show ?thesis by (rule handleBossEncounter_inv)
next
  case False
  assume a: "afterMove s passed g = Inr t"
  from afterMove_frame[OF False, of g] a have "gamePhase t \<noteq> boss_encounter" by auto
  then show ?thesis by (rule encounterInv_other_phase)
qed

lemma movePlayer_inv: "movePlayer steps s g = Inr t \<Longrightarrow> encounterInv t"
proof -
  assume a: "movePlayer steps s g = Inr t"
  define s1 where "s1 = s\<lparr>gamePhase := player_moving_animation,
                 lastPlayerPositionBeforeThisMove := playerPosition s\<rparr>"
  define r where "r = moveLoop (nat \<bar>steps\<bar>) (if steps > 0 then 1 else - 1) s1 g"
  have m: "movePlayer steps s g =
     (case r of Inl e \<Rightarrow> Inl e | Inr (BossStarted s2) \<Rightarrow> Inr s2
       | Inr (MoveDone s2 passedStartThisTurn g') \<Rightarrow> afterMove s2 passedStartThisTurn g')"
    by (simp add: movePlayer_def Let_def r_def s1_def)
  show ?thesis
  proof (cases r)
    case (Inl e)
    with a m show ?thesis by simp
  next
    case (Inr out)
    show ?thesis
    proof (cases out)
      case (BossStarted s2)
      with Inr a m have "s2 = t" by simp
      with Inr BossStarted have "moveLoop (nat \<bar>steps\<bar>) (if steps > 0 then 1 else - 1) s1 g
          = Inr (BossStarted t)" by (simp add: r_def)
      then show ?thesis by (rule moveLoop_boss_inv)
    next
      case (MoveDone s2 p g')
      with Inr a m have "afterMove s2 p g' = Inr t" by simp
      then show ?thesis by (rule afterMove_inv)
    qed
  qed
qed

lemma encounterInv_frame:
  assumes "gamePhase t = gamePhase s" "currentBoss t = currentBoss s"
    "currentBossMaxHP t = currentBossMaxHP s" "currentBossHP t = currentBossHP s"
    "currentDiceThrows t = currentDiceThrows s"
  shows "encounterInv t = encounterInv s"
  unfolding encounterInv_def bossHpInSync_def assms by (rule refl)

lemma nextStage_inv: "encounterInv s \<Longrightarrow> encounterInv (nextStage s g)"
proof (cases "playerStage s + 1 > MAX_STAGES")
  case True
  assume "encounterInv s"
  moreover have "encounterInv (s\<lparr>playerStage := playerStage s + 1, isGameOver := True,
      showSummaryModal := True\<rparr>) = encounterInv s"
    by (rule encounterInv_frame) simp_all
  ultimately show ?thesis unfolding nextStage_last[OF True] by simp
next
  case False
  then have "gamePhase (nextStage s g) = rolling" by (simp add: nextStage_phase)
  then show ?thesis by (simp add: encounterInv_def)
qed

lemma defeatBoss_inv:
  assumes "encounterInv s" "defeatBoss w s g = Inr t"
  shows "encounterInv t"
proof (cases w)
  case True
  with assms(2) have "t = nextStage s g" by (simp add: defeatBoss_def)
  with assms(1) show ?thesis by (simp add: nextStage_inv)
next
  case False
  with assms(2) obtain b where b: "currentBoss s = Some b"
    by (cases "currentBoss s") (simp_all add: defeatBoss_def Let_def)
  define s1 where "s1 = (if sum_list (currentDiceThrows s) = boss_hp b
             then s\<lparr>bossesDefeated := bossesDefeated s + 1,
                    perfectBossDefeats := perfectBossDefeats s + 1\<rparr>
             else s\<lparr>bossesDefeated := bossesDefeated s + 1\<rparr>)"
  have "encounterInv s1 = encounterInv s"
    by (rule encounterInv_frame) (simp_all add: s1_def)
  then have "encounterInv s1" using assms(1) by simp
  moreover have "t = nextStage s1 g"
    using assms(2) False b by (simp add: defeatBoss_def Let_def s1_def split: if_splits)
  ultimately show ?thesis by (simp add: nextStage_inv)
qed

lemma throwAtBoss_inv:
  assumes "encounterInv s" "gamePhase s = boss_encounter"
  shows "encounterInv (throwAtBoss r s)"
  using assms
  by (auto simp add: throwAtBoss_eq encounterInv_def bossHpInSync_def split: option.splits)

lemma resolveBossThrow_inv:
  assumes "encounterInv s" "resolveBossThrow s g = Inr t"
  shows "encounterInv t"
proof (cases "currentBoss s")
  case None
  with assms(2) show ?thesis by (simp add: resolveBossThrow_def)
next
  case (Some b)
  show ?thesis
  proof (cases "boss_hp b \<le> sum_list (currentDiceThrows s)")
    case True
    with Some assms(2) have "defeatBoss False s g = Inr t"
      by (simp add: resolveBossThrow_def)
    with assms(1) show ?thesis by (rule defeatBoss_inv)
  next
    case False
    with Some assms(2) have "t = failBossFight s \<or> t = s"
      by (auto simp add: resolveBossThrow_def split: if_splits)
    then show ?thesis
      using assms(1) by (auto simp add: failBossFight_def encounterInv_def)
  qed
qed

lemma rollDice_inv:
  assumes "encounterInv s" "rollDice i s g = Inr t"
  shows "encounterInv t"
proof (cases "gamePhase s = boss_encounter")
  case True
  show ?thesis
  proof (cases "remainingBossRolls s \<le> 0")
    case r: True
    with True assms show ?thesis by (simp add: rollDice_def)
  next
    case r: False
    let ?t = "throwAtBoss \<lceil>g 0 * 6\<rceil> (s\<lparr>remainingBossRolls := remainingBossRolls s - 1\<rparr>)"
    have "encounterInv (s\<lparr>remainingBossRolls := remainingBossRolls s - 1\<rparr>) = encounterInv s"
      by (rule encounterInv_frame) simp_all
    then have "encounterInv (s\<lparr>remainingBossRolls := remainingBossRolls s - 1\<rparr>)"
      using assms(1) by simp
    then have "encounterInv ?t" using True by (intro throwAtBoss_inv) simp_all
    moreover have "resolveBossThrow ?t (rng_tl g) = Inr t"
      using rollDice_boss[OF True, of i g] r assms(2) by simp
    ultimately show ?thesis by (rule resolveBossThrow_inv)
  qed
next
  case False
  show ?thesis
  proof (cases "isGameOver s \<or> gamePhase s \<noteq> rolling \<or> isAnimating s")
    case True
    with False assms show ?thesis by (auto simp add: rollDice_def)
  next
    case idle: False
    have "\<exists>steps u h. rollDice i s g = movePlayer steps u h"
      using False idle by (auto simp add: rollDice_def Let_def case_prod_beta)
    with assms(2) show ?thesis using movePlayer_inv by metis
  qed
qed

lemma rollDiceForBoss_inv:
  assumes "encounterInv s" "rollDiceForBoss dr s g = Inr t"
  shows "encounterInv t"
proof (cases "gamePhase s = boss_encounter")
  case False
  with assms show ?thesis by (simp add: rollDiceForBoss_def)
next
  case True
  have "\<exists>r u h. encounterInv u \<and> gamePhase u = boss_encounter \<and>
          resolveBossThrow (throwAtBoss r u) h = Inr t"
  proof (cases dr)
    case (InBag k)
    show ?thesis
    proof (cases "k < length (reservedDice s)")
      case k: True
      have "encounterInv (s\<lparr>reservedDice := removeAt k (reservedDice s)\<rparr>) = encounterInv s"
        by (rule encounterInv_frame) simp_all
      then have u: "encounterInv (s\<lparr>reservedDice := removeAt k (reservedDice s)\<rparr>)"
          "gamePhase (s\<lparr>reservedDice := removeAt k (reservedDice s)\<rparr>) = boss_encounter"
        using assms(1) True by simp_all
      from assms(2) True InBag k obtain r h where "bossRoll (reservedDice s ! k) g = Inr (r, h)"
        by (cases "bossRoll (reservedDice s ! k) g") (auto simp add: rollDiceForBoss_def)
      with assms(2) True InBag k have
        "resolveBossThrow (throwAtBoss r (s\<lparr>reservedDice := removeAt k (reservedDice s)\<rparr>)) h = Inr t"
        by (simp add: rollDiceForBoss_def)
      with u show ?thesis by blast
    next
      case False
      with assms(2) True InBag show ?thesis by (simp add: rollDiceForBoss_def)
    qed
  next
    case (NotInBag d)
    from assms(2) True NotInBag obtain r h where "bossRoll d g = Inr (r, h)"
      by (cases "bossRoll d g") (auto simp add: rollDiceForBoss_def)
    with assms(2) True NotInBag have "resolveBossThrow (throwAtBoss r s) h = Inr t"
      by (simp add: rollDiceForBoss_def)
    with assms(1) True show ?thesis by blast
  qed
  then obtain r u h where u: "encounterInv u" "gamePhase u = boss_encounter"
    "resolveBossThrow (throwAtBoss r u) h = Inr t" by blast
  have "encounterInv (throwAtBoss r u)" using u(1,2) by (rule throwAtBoss_inv)
  then show ?thesis using u(3) by (rule resolveBossThrow_inv)
qed

lemma payToDefeatBoss_inv:
  assumes "encounterInv s" "payToDefeatBoss s g = Inr t"
  shows "encounterInv t"
proof (cases "currentBoss s")
  case None
  with assms show ?thesis by (simp add: payToDefeatBoss_def)
next
  case (Some b)
  show ?thesis
  proof (cases "boss_bribeCost b \<le> playerMoney s")
    case True
    let ?s1 = "s\<lparr>playerMoney := playerMoney s - boss_bribeCost b, bribesBosses := bribesBosses s + 1\<rparr>"
    have "encounterInv ?s1 = encounterInv s" by (rule encounterInv_frame) simp_all
    then have "encounterInv ?s1" using assms(1) by simp
    moreover have "defeatBoss True ?s1 g = Inr t"
      using assms(2) Some True by (simp add: payToDefeatBoss_def Let_def)
    ultimately show ?thesis by (rule defeatBoss_inv)
  next
    case False
    with assms Some show ?thesis by (simp add: payToDefeatBoss_def Let_def)
  qed
qed

lemma playerMakesChoice_inv:
  assumes "encounterInv s"
  shows "encounterInv (playerMakesChoice chosenOption s)"
proof (cases "gamePhase s \<noteq> awaiting_choice \<or> choiceDetails s = None")
  case True
  with assms show ?thesis by (auto simp add: playerMakesChoice_def)
next
  case False
  then have "gamePhase (playerMakesChoice chosenOption s) = rolling"
    by (simp add: playerMakesChoice_def Let_def)
  then show ?thesis by (rule encounterInv_other_phase[OF eq_neq_eq_imp_neq[OF _ _ refl]]) simp_all
qed

lemma resetGame_phase: "gamePhase (resetGame s g) = rolling"
proof -
  obtain t where "resetGame s g = fst (setupStage t g)" by (simp add: resetGame_def)
  moreover obtain b g' where "setupStage t g =
     (t\<lparr>boardRows := rows (currentStageConfig t), boardCols := cols (currentStageConfig t),
        playerLap := 1, playerPosition := 0, lastPlayerPositionBeforeThisMove := 0,
        lastDiceRoll := None, choiceDetails := None, boardSquares := b,
        gamePhase := rolling, isAnimating := False\<rparr>, g')"
    using setupStage_board by blast
  ultimately show ?thesis by simp
qed

lemma initializeGame_phase: "gamePhase (initializeGame s g) = rolling"
  using initializeGame_shape[of s g] by auto

lemma step_inv:
  assumes "encounterInv s" "step c s g = Inr t"
  shows "encounterInv t"
proof (cases c)
  case InitializeGame
  with assms(2) have "gamePhase t = rolling" by (auto simp add: step_def initializeGame_phase)
  then show ?thesis by (simp add: encounterInv_def)
next
  case (RollDice i)
  with assms show ?thesis by (auto simp add: step_def intro: rollDice_inv)
next
  case (RollDiceForBoss dr)
  with assms show ?thesis by (auto simp add: step_def intro: rollDiceForBoss_inv)
next
  case (PlayerMakesChoice opt)
  with assms show ?thesis by (auto simp add: step_def intro: playerMakesChoice_inv)
next
  case PayToDefeatBoss
  with assms show ?thesis by (auto simp add: step_def intro: payToDefeatBoss_inv)
next
  case ResetGame
  with assms(2) have "gamePhase t = rolling" by (auto simp add: step_def resetGame_phase)
  then show ?thesis by (simp add: encounterInv_def)
qed

lemma run_inv:
  assumes "encounterInv s" "run cs s = Inr t"
  shows "encounterInv t"
  using assms
proof (induction cs arbitrary: s)
  case Nil
  then show ?case by simp
next
  case (Cons cg cs)
  obtain c g where cg: "cg = (c, g)" by (cases cg)
  from Cons.prems(2) obtain s' where s': "step c s g = Inr s'" "run cs s' = Inr t"
    unfolding cg by (cases "step c s g") simp_all
  have "encounterInv s'" using Cons.prems(1) s'(1) by (rule step_inv)
  then show ?case using s'(2) by (rule Cons.IH)
qed

lemma resolveBossThrow_total:
  assumes "currentBoss s = Some b"
  shows "\<exists>t. resolveBossThrow s g = Inr t"
proof (cases "boss_hp b \<le> sum_list (currentDiceThrows s)")
  case True
  then show ?thesis using resolveBossThrow_victory[OF assms, of g] by blast
next
  case False
  then show ?thesis using resolveBossThrow_miss[OF assms, of g] by simp
qed

lemma rollDice_boss_total:
  assumes "gamePhase s = boss_encounter" "currentBoss s = Some b"
  shows "\<exists>t. rollDice i s g = Inr t"
proof (cases "remainingBossRolls s \<le> 0")
  case True
  with assms(1) show ?thesis by (simp add: rollDice_def)
next
  case False
  then have "rollDice i s g =
           resolveBossThrow
             (throwAtBoss \<lceil>g 0 * 6\<rceil> (s\<lparr>remainingBossRolls := remainingBossRolls s - 1\<rparr>)) (rng_tl g)"
    using assms(1) by (intro rollDice_boss) simp_all
  moreover have "currentBoss
      (throwAtBoss \<lceil>g 0 * 6\<rceil> (s\<lparr>remainingBossRolls := remainingBossRolls s - 1\<rparr>)) = Some b"
    using assms(2) by (simp add: throwAtBoss_eq)
  ultimately show ?thesis using resolveBossThrow_total by metis
qed

lemma payToDefeatBoss_total: "\<exists>t. payToDefeatBoss s g = Inr t"
  by (cases "currentBoss s") (auto simp add: payToDefeatBoss_def Let_def defeatBoss_def)

text \<open>
  C10. Whenever the phase is boss_encounter, currentBossHP is currentBossMaxHP minus the
  sum of currentDiceThrows (below zero after an overkill). This holds in the initial
  state and is kept by every command, hence after every run of commands; and during an
  encounter neither the free throw nor the bribe fails.
\<close>

theorem boss_hp_follows_throws:
  "encounterInv initialState \<and>
   (encounterInv s \<longrightarrow> step c s g = Inr s' \<longrightarrow> encounterInv s') \<and>
   (encounterInv s \<longrightarrow> run cs s = Inr t \<longrightarrow> gamePhase t = boss_encounter \<longrightarrow> bossHpInSync t) \<and>
   (encounterInv s \<longrightarrow> gamePhase s = boss_encounter \<longrightarrow>
      (\<exists>u. step (RollDice i) s g = Inr u) \<and> (\<exists>u. step PayToDefeatBoss s g = Inr u))"
proof (intro conjI impI)
  show "encounterInv initialState"
    by (simp add: encounterInv_def initialState_def)
next
  assume "encounterInv s" "step c s g = Inr s'"
  then show "encounterInv s'" by (rule step_inv)
next
  assume "encounterInv s" "run cs s = Inr t"
  then have "encounterInv t" by (rule run_inv)
  moreover assume "gamePhase t = boss_encounter"
  ultimately show "bossHpInSync t" by (simp add: encounterInv_def)
next
  assume "encounterInv s" "gamePhase s = boss_encounter"
  then obtain b where "currentBoss s = Some b" by (auto simp add: encounterInv_def)
  with \<open>gamePhase s = boss_encounter\<close> show "\<exists>u. step (RollDice i) s g = Inr u"
    using rollDice_boss_total[of s b i g] by (simp add: step_def)
next
  show "\<exists>u. step PayToDefeatBoss s g = Inr u"
    using payToDefeatBoss_total[of s g] by (simp add: step_def)
qed

theorem boss_hp_follows_throws_witness:
  "encounterInv (bossState 1 [6] 2 [fixedDie 2] 0) \<and>
   run [(RollDice (- 1), constRng (1 / 2)), (RollDiceForBoss (InBag 0), constRng 0)]
       (bossState 1 [6] 2 [fixedDie 2] 0)
     = Inr ((bossState 1 [6, 3, 2] 1 [] 0)\<lparr>totalRolls := 2\<rparr>) \<and>
   currentBossHP ((bossState 1 [6, 3, 2] 1 [] 0)\<lparr>totalRolls := 2\<rparr>) = Some 4 \<and>
   bossHpInSync ((bossState 1 [6, 3, 2] 1 [] 0)\<lparr>totalRolls := 2\<rparr>)"
proof -
  let ?s = "bossState 1 [6] 2 [fixedDie 2] 0" and ?t = "(bossState 1 [6, 3, 2] 1 [] 0)\<lparr>totalRolls := 2\<rparr>"
  let ?cs = "[(RollDice (- 1), constRng (1 / 2)), (RollDiceForBoss (InBag 0), constRng 0)]"
  have a: "encounterInv ?s"
    by (simp add: encounterInv_def bossHpInSync_def sample_defs)
  have b: "run ?cs ?s = Inr ?t"
    by (simp add: step_def rollDice_def Math_random_def resolveBossThrow_def throwAtBoss_eq
          rollDiceForBoss_def removeAt_def rng_tl_def sample_defs)
  have c: "gamePhase ?t = boss_encounter" "currentBossHP ?t = Some 4"
    by (simp_all add: sample_defs)
  from boss_hp_follows_throws[where s = ?s and cs = ?cs and t = ?t] a b c(1)
  have "bossHpInSync ?t" by blast
  with a b c show ?thesis by simp
qed

subsection \<open>Lap effects\<close>

lemma squareIdToIndexMap_numbered:
  assumes "map sq_id b = map int [0 ..< length b]"
  shows "squareIdToIndexMap b i = (if 0 \<le> i \<and> i < int (length b) then Some (nat i) else None)"
proof -
  let ?ks = "map int [0 ..< length b]"
  have d: "distinct ?ks" by (simp add: distinct_map inj_on_def)
  have z: "zip ?ks [0 ..< length b] = zip ?ks (map nat ?ks)"
    by (simp add: map_idI)
  have "map_of (rev (zip ?ks [0 ..< length b])) = map_of (zip ?ks [0 ..< length b])"
  proof (rule map_of_inject_set[THEN iffD2])
    show "distinct (map fst (rev (zip ?ks [0 ..< length b])))"
      using d by (simp add: rev_map[symmetric])
    show "distinct (map fst (zip ?ks [0 ..< length b]))" using d by simp
    show "set (rev (zip ?ks [0 ..< length b])) = set (zip ?ks [0 ..< length b])" by simp
  qed
  also have "\<dots> = (\<lambda>x. if x \<in> set ?ks then Some (nat x) else None)"
    unfolding z by (rule map_of_zip_map)
  finally have "squareIdToIndexMap b i = (if i \<in> set ?ks then Some (nat i) else None)"
    by (simp add: squareIdToIndexMap_def assms)
  moreover have "i \<in> set ?ks \<longleftrightarrow> 0 \<le> i \<and> i < int (length b)"
  proof
    assume "i \<in> set ?ks" then show "0 \<le> i \<and> i < int (length b)" by auto
  next
    assume "0 \<le> i \<and> i < int (length b)"
    then have "nat i \<in> set [0 ..< length b]" "i = int (nat i)" by auto
    then show "i \<in> set ?ks" by (metis image_eqI set_map)
  qed
  ultimately show ?thesis by simp
qed

lemma shuffle_from_perm:
  assumes "valid_rng g" "i < length xs \<or> i = 0"
  shows "length (fst (shuffle_from i xs g)) = length xs \<and>
         set (fst (shuffle_from i xs g)) = set xs \<and>
         (distinct (fst (shuffle_from i xs g)) \<longleftrightarrow> distinct xs) \<and>
         valid_rng (snd (shuffle_from i xs g))"
  using assms
proof (induction i arbitrary: xs g)
  case 0
  then show ?case by simp
next
  case (Suc i)
  then have len: "Suc i < length xs" by auto
  define j where "j = nat \<lfloor>g 0 * of_nat (Suc i + 1)\<rfloor>"
  have u: "0 \<le> g 0" "g 0 < 1" using Suc.prems(1) by (simp_all add: valid_rng_def)
  have "g 0 * real (Suc i + 1) < 1 * real (Suc i + 1)"
    using u(2) by (intro mult_strict_right_mono) simp_all
  then have "\<lfloor>g 0 * real (Suc i + 1)\<rfloor> < int (Suc i + 1)"
    by (simp add: floor_less_iff)
  then have j: "j < length xs" using len unfolding j_def by simp
  let ?ys = "xs[Suc i := xs ! j, j := xs ! Suc i]"
  have ys: "length ?ys = length xs" "set ?ys = set xs" "distinct ?ys \<longleftrightarrow> distinct xs"
    using len j by simp_all
  have ih: "length (fst (shuffle_from i ?ys (rng_tl g))) = length ?ys \<and>
         set (fst (shuffle_from i ?ys (rng_tl g))) = set ?ys \<and>
         (distinct (fst (shuffle_from i ?ys (rng_tl g))) \<longleftrightarrow> distinct ?ys) \<and>
         valid_rng (snd (shuffle_from i ?ys (rng_tl g)))"
    using Suc.prems(1) len by (intro Suc.IH valid_rng_tl) simp_all
  have "shuffle_from (Suc i) xs g = shuffle_from i ?ys (rng_tl g)"
    by (simp add: Math_random_def j_def Let_def)
  with ih ys show ?case by simp
qed

lemma shuffleArray_perm:
  assumes "valid_rng g"
  shows "length (fst (shuffleArray xs g)) = length xs"
    "set (fst (shuffleArray xs g)) = set xs"
    "distinct (fst (shuffleArray xs g)) \<longleftrightarrow> distinct xs"
    "valid_rng (snd (shuffleArray xs g))"
proof -
  have "length xs - 1 < length xs \<or> length xs - 1 = 0" by (cases xs) simp_all
  from shuffle_from_perm[OF assms this]
  show "length (fst (shuffleArray xs g)) = length xs"
    "set (fst (shuffleArray xs g)) = set xs"
    "distinct (fst (shuffleArray xs g)) \<longleftrightarrow> distinct xs"
    "valid_rng (snd (shuffleArray xs g))"
    by (simp_all add: shuffleArray_def)
qed

lemma countEffects_update:
  assumes "k < length b"
  shows "countEffects es (b[k := x]) + (if currentEffectType (b ! k) \<in> set es then 1 else 0)
         = countEffects es b + (if currentEffectType x \<in> set es then 1 else 0)"
  using assms
proof (induction b arbitrary: k)
  case Nil
  then show ?case by simp
next
  case (Cons a b)
  show ?case
  proof (cases k)
    case 0
    then show ?thesis by (simp add: countEffects_def)
  next
    case (Suc k')
    with Cons.prems have "k' < length b" by simp
    from Cons.IH[OF this] Suc show ?thesis by (simp add: countEffects_def)
  qed
qed

lemma assigned_length: "assigned es ks b b' \<Longrightarrow> length b' = length b"
  by (induction rule: assigned.induct) simp_all

lemma assigned_ids:
  "assigned es ks b b' \<Longrightarrow> map sq_id b' = map sq_id b \<and> map baseType b' = map baseType b"
proof (induction rule: assigned.induct)
  case (assigned_Nil es b)
  then show ?case by simp
next
  case (assigned_Cons k b x es ks b')
  then show ?case by (simp add: map_update list_update_same_conv[THEN iffD2])
qed

lemma assigned_frame: "assigned es ks b b' \<Longrightarrow> j \<notin> set ks \<Longrightarrow> b' ! j = b ! j"
  by (induction rule: assigned.induct) auto

lemma assigned_in_range: "assigned es ks b b' \<Longrightarrow> \<forall>k\<in>set ks. k < length b"
  by (induction rule: assigned.induct) auto

lemma assigned_count_new:
  assumes "assigned es ks b b'" "distinct ks"
    "\<forall>k\<in>set ks. currentEffectType (b ! k) \<notin> set es"
  shows "countEffects es b' = countEffects es b + length ks"
  using assms
proof (induction rule: assigned.induct)
  case (assigned_Nil es b)
  then show ?case by simp
next
  case (assigned_Cons k b x es ks b')
  have "\<forall>j\<in>set ks. currentEffectType (b[k := x] ! j) \<notin> set es"
  proof
    fix j assume j: "j \<in> set ks"
    with assigned_Cons.prems(1) have "j \<noteq> k" by auto
    with j show "currentEffectType (b[k := x] ! j) \<notin> set es"
      using assigned_Cons.prems(2) by simp
  qed
  then have "countEffects es b' = countEffects es (b[k := x]) + length ks"
    using assigned_Cons.IH assigned_Cons.prems by simp
  moreover have "countEffects es (b[k := x]) = countEffects es b + 1"
    using countEffects_update[OF assigned_Cons.hyps(1), of es x] assigned_Cons.hyps(4)
      assigned_Cons.prems(2) by simp
  ultimately show ?case by simp
qed

lemma assigned_count_other:
  assumes "assigned es ks b b'" "set es \<inter> set fs = {}"
    "\<forall>k\<in>set ks. currentEffectType (b ! k) \<notin> set fs"
  shows "countEffects fs b' = countEffects fs b"
  using assms
proof (induction rule: assigned.induct)
  case (assigned_Nil es b)
  then show ?case by simp
next
  case (assigned_Cons k b x es ks b')
  have x: "currentEffectType x \<notin> set fs" using assigned_Cons.hyps(4) assigned_Cons.prems(1) by auto
  have "\<forall>j\<in>set ks. currentEffectType (b[k := x] ! j) \<notin> set fs"
  proof
    fix j assume "j \<in> set ks"
    then show "currentEffectType (b[k := x] ! j) \<notin> set fs"
      using assigned_Cons.prems(2) x assigned_Cons.hyps(1) by (cases "j = k") simp_all
  qed
  then have "countEffects fs b' = countEffects fs (b[k := x])"
    using assigned_Cons.IH assigned_Cons.prems(1) by simp
  moreover have "countEffects fs (b[k := x]) = countEffects fs b"
    using countEffects_update[OF assigned_Cons.hyps(1), of fs x] x assigned_Cons.prems(2) by simp
  ultimately show ?case by simp
qed

lemma assignBad_assigned:
  assumes "\<And>i. idx i = (if 0 \<le> i \<and> i < int n then Some (nat i) else None)"
    "length b = n" "\<forall>i\<in>set av. 0 \<le> i \<and> i < int n"
  shows "\<exists>taken. av = fst (assignBad k idx st av b g) @ rev taken \<and>
           length taken = min k (length av) \<and>
           assigned [E_temp_bad_lap] (map nat taken) b (fst (snd (assignBad k idx st av b g)))"
  using assms(2,3)
proof (induction k arbitrary: av b g)
  case 0
  have "assigned [E_temp_bad_lap] (map nat []) b b" by (simp add: assigned_Nil)
  then show ?case by simp
next
  case (Suc k)
  show ?case
  proof (cases "av = []")
    case True
    have "assigned [E_temp_bad_lap] (map nat []) b b" by (simp add: assigned_Nil)
    with True show ?thesis by simp
  next
    case False
    define i where "i = last av"
    have av: "av = butlast av @ [i]" using False by (simp add: i_def)
    have i: "0 \<le> i" "i < int n" using Suc.prems(2) False by (simp_all add: i_def)
    have idx: "idx i = Some (nat i)" using i by (simp add: assms(1))
    define x where "x = (b ! nat i)\<lparr>isTempBad := True, currentEffectType := E_temp_bad_lap,
                   effectDetails := Some (Penalty (fst (getRandomInt 5 15 g) * st))\<rparr>"
    define g' where "g' = snd (getRandomInt 5 15 g)"
    have step: "assignBad (Suc k) idx st av b g = assignBad k idx st (butlast av) (b[nat i := x]) g'"
      using False idx by (simp add: i_def[symmetric] case_prod_beta x_def g'_def)
    have pre: "length (b[nat i := x]) = n" "\<forall>j\<in>set (butlast av). 0 \<le> j \<and> j < int n"
      using Suc.prems by (auto dest: in_set_butlastD)
    from Suc.IH[OF pre, of g'] obtain taken where t:
      "butlast av = fst (assignBad k idx st (butlast av) (b[nat i := x]) g') @ rev taken"
      "length taken = min k (length (butlast av))"
      "assigned [E_temp_bad_lap] (map nat taken) (b[nat i := x])
         (fst (snd (assignBad k idx st (butlast av) (b[nat i := x]) g')))"
      by blast
    have k: "nat i < length b" using i Suc.prems(1) by auto
    have "assigned [E_temp_bad_lap] (nat i # map nat taken) b
         (fst (snd (assignBad k idx st (butlast av) (b[nat i := x]) g')))"
      by (rule assigned_Cons[OF k _ _ _ t(3)]) (simp_all add: x_def)
    then have "assigned [E_temp_bad_lap] (map nat (i # taken)) b
         (fst (snd (assignBad k idx st (butlast av) (b[nat i := x]) g')))"
      by simp
    moreover have "av = fst (assignBad k idx st (butlast av) (b[nat i := x]) g') @ rev (i # taken)"
    proof -
      note av
      also have "butlast av @ [i] =
          (fst (assignBad k idx st (butlast av) (b[nat i := x]) g') @ rev taken) @ [i]"
        by (rule arg_cong[where f = "\<lambda>l. l @ [i]", OF t(1)])
      finally show ?thesis by simp
    qed
    moreover have "length (i # taken) = min (Suc k) (length av)"
      using t(2) False by (cases av) simp_all
    ultimately show ?thesis unfolding step by blast
  qed
qed

lemma assignBad_rng: "valid_rng g \<Longrightarrow> valid_rng (snd (snd (assignBad k idx st av b g)))"
proof (induction k arbitrary: av b g)
  case 0
  then show ?case by simp
next
  case (Suc k)
  have "valid_rng (snd (getRandomInt 5 15 g))"
    using Suc.prems by (simp add: getRandomInt_snd valid_rng_tl)
  then show ?case
    using Suc by (simp add: case_prod_beta split: option.splits)
qed

lemma assignChoice_assigned:
  assumes "\<And>i. idx i = (if 0 \<le> i \<and> i < int n then Some (nat i) else None)"
    "length b = n" "\<forall>i\<in>set av. 0 \<le> i \<and> i < int n"
  shows "\<exists>taken. av = fst (assignChoice e k idx av b) @ rev taken \<and>
           length taken = min k (length av) \<and>
           assigned [e] (map nat taken) b (snd (assignChoice e k idx av b))"
  using assms(2,3)
proof (induction k arbitrary: av b)
  case 0
  have "assigned [e] (map nat []) b b" by (simp add: assigned_Nil)
  then show ?case by simp
next
  case (Suc k)
  show ?case
  proof (cases "av = []")
    case True
    have "assigned [e] (map nat []) b b" by (simp add: assigned_Nil)
    with True show ?thesis by simp
  next
    case False
    define i where "i = last av"
    have av: "av = butlast av @ [i]" using False by (simp add: i_def)
    have i: "0 \<le> i" "i < int n" using Suc.prems(2) False by (simp_all add: i_def)
    have idx: "idx i = Some (nat i)" using i by (simp add: assms(1))
    define x where "x = (b ! nat i)\<lparr>currentEffectType := e\<rparr>"
    have step: "assignChoice e (Suc k) idx av b = assignChoice e k idx (butlast av) (b[nat i := x])"
      using False idx by (simp add: i_def[symmetric] x_def)
    have pre: "length (b[nat i := x]) = n" "\<forall>j\<in>set (butlast av). 0 \<le> j \<and> j < int n"
      using Suc.prems by (auto dest: in_set_butlastD)
    from Suc.IH[OF pre] obtain taken where t:
      "butlast av = fst (assignChoice e k idx (butlast av) (b[nat i := x])) @ rev taken"
      "length taken = min k (length (butlast av))"
      "assigned [e] (map nat taken) (b[nat i := x])
         (snd (assignChoice e k idx (butlast av) (b[nat i := x])))"
      by blast
    have k: "nat i < length b" using i Suc.prems(1) by auto
    have "assigned [e] (nat i # map nat taken) b
         (snd (assignChoice e k idx (butlast av) (b[nat i := x])))"
      by (rule assigned_Cons[OF k _ _ _ t(3)]) (simp_all add: x_def)
    then have "assigned [e] (map nat (i # taken)) b
         (snd (assignChoice e k idx (butlast av) (b[nat i := x])))"
      by simp
    moreover have "av = fst (assignChoice e k idx (butlast av) (b[nat i := x])) @ rev (i # taken)"
    proof -
      note av
      also have "butlast av @ [i] =
          (fst (assignChoice e k idx (butlast av) (b[nat i := x])) @ rev taken) @ [i]"
        by (rule arg_cong[where f = "\<lambda>l. l @ [i]", OF t(1)])
      finally show ?thesis by simp
    qed
    moreover have "length (i # taken) = min (Suc k) (length av)"
      using t(2) False by (cases av) simp_all
    ultimately show ?thesis unfolding step by blast
  qed
qed

lemma assignMoney_assigned:
  assumes "\<And>i. idx i = (if 0 \<le> i \<and> i < int n then Some (nat i) else None)"
    "length b = n" "\<forall>i\<in>set ids. 0 \<le> i \<and> i < int n"
  shows "assigned [E_huge_money, E_normal_money] (map nat ids) b
           (fst (assignMoney idx huge mult ids b g))"
  using assms(2,3)
proof (induction ids arbitrary: b g)
  case Nil
  then show ?case by (simp add: assigned_Nil)
next
  case (Cons i ids)
  have i: "0 \<le> i" "i < int n" using Cons.prems(2) by simp_all
  have idx: "idx i = Some (nat i)" using i by (simp add: assms(1))
  have k: "nat i < length b" using i Cons.prems(1) by auto
  show ?case
  proof (cases "g 0 < 15 / 100")
    case True
    define x where "x = (b ! nat i)\<lparr>currentEffectType := E_huge_money,
                                  effectDetails := Some (Amount huge)\<rparr>"
    have step: "assignMoney idx huge mult (i # ids) b g =
                  assignMoney idx huge mult ids (b[nat i := x]) (rng_tl g)"
      using True idx by (simp add: Math_random_def x_def)
    have ih: "assigned [E_huge_money, E_normal_money] (map nat ids) (b[nat i := x])
           (fst (assignMoney idx huge mult ids (b[nat i := x]) (rng_tl g)))"
      using Cons.prems by (intro Cons.IH) simp_all
    have "assigned [E_huge_money, E_normal_money] (nat i # map nat ids) b
           (fst (assignMoney idx huge mult ids (b[nat i := x]) (rng_tl g)))"
      by (rule assigned_Cons[OF k _ _ _ ih]) (simp_all add: x_def)
    then show ?thesis unfolding step by simp
  next
    case False
    define x where "x = (b ! nat i)\<lparr>currentEffectType := E_normal_money,
        effectDetails := Some (Amount \<lfloor>of_int (fst (getRandomInt 1 3 (rng_tl g))) * mult\<rfloor>)\<rparr>"
    have step: "assignMoney idx huge mult (i # ids) b g =
                  assignMoney idx huge mult ids (b[nat i := x]) (snd (getRandomInt 1 3 (rng_tl g)))"
      using False idx by (simp add: Math_random_def x_def case_prod_beta)
    have ih: "assigned [E_huge_money, E_normal_money] (map nat ids) (b[nat i := x])
           (fst (assignMoney idx huge mult ids (b[nat i := x]) (snd (getRandomInt 1 3 (rng_tl g)))))"
      using Cons.prems by (intro Cons.IH) simp_all
    have "assigned [E_huge_money, E_normal_money] (nat i # map nat ids) b
           (fst (assignMoney idx huge mult ids (b[nat i := x]) (snd (getRandomInt 1 3 (rng_tl g)))))"
      by (rule assigned_Cons[OF k _ _ _ ih]) (simp_all add: x_def)
    then show ?thesis unfolding step by simp
  qed
qed

lemma resetSquare_fields [simp]:
  "sq_id (resetSquare sq) = sq_id sq" "baseType (resetSquare sq) = baseType sq"
  by (simp_all add: resetSquare_def)

lemma cornerSquareIds_board [simp]: "cornerSquareIds (s\<lparr>boardSquares := b\<rparr>) = cornerSquareIds s"
  by (simp add: cornerSquareIds_def)

lemma reset_all_none:
  assumes "boardWellFormed s"
  shows "\<forall>sq\<in>set (map resetSquare (boardSquares s)). currentEffectType sq = E_none"
proof
  fix sq assume "sq \<in> set (map resetSquare (boardSquares s))"
  then obtain x where x: "x \<in> set (boardSquares s)" "sq = resetSquare x" by auto
  from assms x(1) have "(baseType x = B_normal \<and> sq_id x \<notin> set (cornerSquareIds s)) \<or>
      currentEffectType x = E_none"
    by (auto simp add: boardWellFormed_def list_all_iff)
  then show "currentEffectType sq = E_none"
    unfolding x(2) by (auto simp add: resetSquare_def)
qed

lemma candidates_after_reset:
  "candidateSquareIds (s\<lparr>boardSquares := map resetSquare (boardSquares s)\<rparr>) = candidateSquareIds s"
  by (simp add: candidateSquareIds_def filter_map comp_def)

lemma candidates_numbered:
  assumes "map sq_id (boardSquares s) = map int [0 ..< length (boardSquares s)]"
  shows "distinct (candidateSquareIds s)"
    and "\<forall>i\<in>set (candidateSquareIds s). 0 \<le> i \<and> i < int (length (boardSquares s))"
    and "j < length (boardSquares s) \<Longrightarrow>
           int j \<in> set (candidateSquareIds s) \<longleftrightarrow>
             baseType (boardSquares s ! j) = B_normal \<and> int j \<notin> set (cornerSquareIds s)"
proof -
  let ?b = "boardSquares s"
  let ?P = "\<lambda>sq. baseType sq = B_normal \<and> sq_id sq \<notin> set (cornerSquareIds s)"
  have d: "distinct (map sq_id ?b)" unfolding assms by (simp add: distinct_map inj_on_def)
  have id: "sq_id (?b ! k) = int k" if "k < length ?b" for k
  proof -
    have "map sq_id ?b ! k = map int [0 ..< length ?b] ! k" using assms by simp
    with that show ?thesis by simp
  qed
  show "distinct (candidateSquareIds s)"
    using d by (simp add: candidateSquareIds_def distinct_map_filter)
  show "\<forall>i\<in>set (candidateSquareIds s). 0 \<le> i \<and> i < int (length ?b)"
  proof
    fix i assume "i \<in> set (candidateSquareIds s)"
    then have "i \<in> set (map sq_id ?b)"
      by (auto simp add: candidateSquareIds_def split: if_splits)
    then show "0 \<le> i \<and> i < int (length ?b)" unfolding assms by auto
  qed
  show "int j \<in> set (candidateSquareIds s) \<longleftrightarrow>
             baseType (?b ! j) = B_normal \<and> int j \<notin> set (cornerSquareIds s)"
    if j: "j < length ?b"
  proof
    assume "int j \<in> set (candidateSquareIds s)"
    then obtain sq where sq: "sq \<in> set ?b" "?P sq" "sq_id sq = int j"
      by (auto simp add: candidateSquareIds_def split: if_splits)
    then obtain k where k: "k < length ?b" "?b ! k = sq" by (auto simp add: in_set_conv_nth)
    with id[of k] sq(3) have "k = j" by simp
    with k sq show "baseType (?b ! j) = B_normal \<and> int j \<notin> set (cornerSquareIds s)" by auto
  next
    assume a: "baseType (?b ! j) = B_normal \<and> int j \<notin> set (cornerSquareIds s)"
    have "?b ! j \<in> set (filter ?P ?b)" using j a id[OF j] by simp
    then have "sq_id (?b ! j) \<in> set (map sq_id (filter ?P ?b))"
      unfolding set_map by (rule imageI)
    moreover have "?b \<noteq> []" using j by auto
    ultimately show "int j \<in> set (candidateSquareIds s)"
      using id[OF j] by (simp add: candidateSquareIds_def)
  qed
qed

text \<open>Rewriting squares that carry no effect: what it does to the counts.\<close>

lemma assigned_none_count:
  assumes "assigned es ks b b'" "distinct ks" "\<forall>k\<in>set ks. currentEffectType (b ! k) = E_none"
    "E_none \<notin> set es"
  shows "countEffects es b' = countEffects es b + length ks"
proof (rule assigned_count_new[OF assms(1,2)])
  show "\<forall>k\<in>set ks. currentEffectType (b ! k) \<notin> set es" using assms(3,4) by auto
qed

lemma assigned_none_other:
  assumes "assigned es ks b b'" "\<forall>k\<in>set ks. currentEffectType (b ! k) = E_none"
    "set es \<inter> set fs = {}" "E_none \<notin> set fs"
  shows "countEffects fs b' = countEffects fs b"
proof (rule assigned_count_other[OF assms(1,3)])
  show "\<forall>k\<in>set ks. currentEffectType (b ! k) \<notin> set fs" using assms(2,4) by auto
qed

lemma assigned_none_frame:
  assumes "assigned es ks b b'" "\<forall>k\<in>K. currentEffectType (b ! k) = E_none" "set ks \<inter> K = {}"
  shows "\<forall>k\<in>K. currentEffectType (b' ! k) = E_none"
proof
  fix k assume k: "k \<in> K"
  with assms(3) have "k \<notin> set ks" by auto
  with assms(1) have "b' ! k = b ! k" by (rule assigned_frame)
  with assms(2) k show "currentEffectType (b' ! k) = E_none" by simp
qed

lemma countEffects_all_none:
  assumes "\<forall>sq\<in>set b. currentEffectType sq = E_none" "E_none \<notin> set es"
  shows "countEffects es b = 0"
  using assms by (auto simp add: countEffects_def filter_empty_conv)

lemma nat_image_disjoint:
  assumes "\<forall>i\<in>set xs. (0::int) \<le> i" "\<forall>i\<in>set ys. (0::int) \<le> i" "set xs \<inter> set ys = {}"
  shows "set (map nat xs) \<inter> set (map nat ys) = {}"
proof (rule ccontr)
  assume "set (map nat xs) \<inter> set (map nat ys) \<noteq> {}"
  then obtain k where "k \<in> set (map nat xs)" "k \<in> set (map nat ys)" by auto
  then obtain i j where "i \<in> set xs" "nat i = k" "j \<in> set ys" "nat j = k" by auto
  with assms(1,2) have "i = j" by (metis nat_eq_iff)
  with \<open>i \<in> set xs\<close> \<open>j \<in> set ys\<close> assms(3) show False by auto
qed

lemma nat_map_distinct:
  assumes "\<forall>i\<in>set xs. (0::int) \<le> i" "distinct xs"
  shows "distinct (map nat xs)"
  using assms by (simp add: distinct_map inj_on_def nat_eq_iff)

lemma setupLapEffects_assigned:
  assumes rng: "valid_rng g" and wf: "boardWellFormed s"
    and q: "quotasOrdered (currentStageConfig s)"
  shows "\<exists>nb nd np t1 t2 t3 rest b1 b2 b3.
     minBadSquares (currentStageConfig s) \<le> nb \<and> nb \<le> maxBadSquares (currentStageConfig s) \<and>
     minChoiceDiceMoneySquares (currentStageConfig s) \<le> nd \<and>
     nd \<le> maxChoiceDiceMoneySquares (currentStageConfig s) \<and>
     minChoicePickDieSquares (currentStageConfig s) \<le> np \<and>
     np \<le> maxChoicePickDieSquares (currentStageConfig s) \<and>
     set (rest @ rev t3 @ rev t2 @ rev t1) = set (candidateSquareIds s) \<and>
     distinct (rest @ rev t3 @ rev t2 @ rev t1) \<and>
     length (rest @ rev t3 @ rev t2 @ rev t1) = length (candidateSquareIds s) \<and>
     length t1 = min (nat nb) (length (rest @ rev t3 @ rev t2 @ rev t1)) \<and>
     length t2 = min (nat nd) (length (rest @ rev t3 @ rev t2)) \<and>
     length t3 = min (nat np) (length (rest @ rev t3)) \<and>
     assigned [E_temp_bad_lap] (map nat t1) (map resetSquare (boardSquares s)) b1 \<and>
     assigned [E_choice_dice_money] (map nat t2) b1 b2 \<and>
     assigned [E_choice_pick_die] (map nat t3) b2 b3 \<and>
     assigned [E_huge_money, E_normal_money] (map nat rest) b3
       (boardSquares (fst (setupLapEffects s g)))"
proof -
  let ?config = "currentStageConfig s"
  let ?b0 = "map resetSquare (boardSquares s)"
  let ?idx = "squareIdToIndexMap ?b0"
  let ?cands = "candidateSquareIds (s\<lparr>boardSquares := ?b0\<rparr>)"
  define n where "n = length (boardSquares s)"
  obtain av0 g0 where e0: "shuffleArray ?cands g = (av0, g0)"
    by (cases "shuffleArray ?cands g")
  obtain nb g1 where e1: "getRandomInt (minBadSquares ?config) (maxBadSquares ?config) g0 = (nb, g1)"
    by (cases "getRandomInt (minBadSquares ?config) (maxBadSquares ?config) g0")
  obtain av1 b1 g2 where e2: "assignBad (nat nb) ?idx (playerStage s) av0 ?b0 g1 = (av1, b1, g2)"
    by (cases "assignBad (nat nb) ?idx (playerStage s) av0 ?b0 g1")
  obtain nd g3 where e3: "getRandomInt (minChoiceDiceMoneySquares ?config)
        (maxChoiceDiceMoneySquares ?config) g2 = (nd, g3)"
    by (cases "getRandomInt (minChoiceDiceMoneySquares ?config)
        (maxChoiceDiceMoneySquares ?config) g2")
  obtain av2 b2 where e4: "assignChoice E_choice_dice_money (nat nd) ?idx av1 b1 = (av2, b2)"
    by (cases "assignChoice E_choice_dice_money (nat nd) ?idx av1 b1")
  obtain np g4 where e5: "getRandomInt (minChoicePickDieSquares ?config)
        (maxChoicePickDieSquares ?config) g3 = (np, g4)"
    by (cases "getRandomInt (minChoicePickDieSquares ?config)
        (maxChoicePickDieSquares ?config) g3")
  obtain av3 b3 where e6: "assignChoice E_choice_pick_die (nat np) ?idx av2 b2 = (av3, b3)"
    by (cases "assignChoice E_choice_pick_die (nat np) ?idx av2 b2")
  define b4 where "b4 = fst (assignMoney ?idx (currentHugeMoneyValue s) (moneyMultiplier ?config)
                               av3 b3 g4)"
  have out: "boardSquares (fst (setupLapEffects s g)) = b4"
    by (simp add: setupLapEffects_def Let_def e0 e1 e2 e3 e4 e5 e6 b4_def case_prod_beta)
  have ids: "map sq_id (boardSquares s) = map int [0 ..< length (boardSquares s)]"
    using wf by (simp add: boardWellFormed_def)
  have ids0: "map sq_id ?b0 = map int [0 ..< length ?b0]"
    using ids by (simp add: comp_def)
  have len0: "length ?b0 = n" by (simp add: n_def)
  have idx: "?idx i = (if 0 \<le> i \<and> i < int n then Some (nat i) else None)" for i
    using squareIdToIndexMap_numbered[OF ids0, of i] len0 by simp
  have cands: "?cands = candidateSquareIds s"
    by (rule candidates_after_reset)
  have cd: "distinct ?cands" and cr: "\<forall>i\<in>set ?cands. 0 \<le> i \<and> i < int n"
    unfolding cands n_def using candidates_numbered(1,2)[OF ids] by simp_all
  have av0: "length av0 = length ?cands" "set av0 = set ?cands" "distinct av0"
    and vg0: "valid_rng g0"
    using shuffleArray_perm[OF rng, of ?cands] cd unfolding e0 by simp_all
  have qs: "minBadSquares ?config \<le> maxBadSquares ?config"
    "minChoiceDiceMoneySquares ?config \<le> maxChoiceDiceMoneySquares ?config"
    "minChoicePickDieSquares ?config \<le> maxChoicePickDieSquares ?config"
    using q by (simp_all add: quotasOrdered_def)
  have nb: "minBadSquares ?config \<le> nb" "nb \<le> maxBadSquares ?config"
    using getRandomInt_range[OF vg0 qs(1)] unfolding e1 by simp_all
  have vg1: "valid_rng g1"
    using getRandomInt_snd[of "minBadSquares ?config" "maxBadSquares ?config" g0] vg0
    unfolding e1 by (simp add: valid_rng_tl)
  have r0: "\<forall>i\<in>set av0. 0 \<le> i \<and> i < int n" using av0(2) cr by simp
  from assignBad_assigned[of ?idx n ?b0 av0 "nat nb" "playerStage s" g1, OF idx len0 r0]
  obtain t1 where t1: "av0 = av1 @ rev t1" "length t1 = min (nat nb) (length av0)"
    "assigned [E_temp_bad_lap] (map nat t1) ?b0 b1"
    unfolding e2 fst_conv snd_conv by blast
  have vg2: "valid_rng g2"
    using assignBad_rng[OF vg1, of "nat nb" ?idx "playerStage s" av0 ?b0] unfolding e2 by simp
  have nd: "minChoiceDiceMoneySquares ?config \<le> nd" "nd \<le> maxChoiceDiceMoneySquares ?config"
    using getRandomInt_range[OF vg2 qs(2)] unfolding e3 by simp_all
  have vg3: "valid_rng g3"
    using getRandomInt_snd[of "minChoiceDiceMoneySquares ?config"
        "maxChoiceDiceMoneySquares ?config" g2] vg2
    unfolding e3 by (simp add: valid_rng_tl)
  have len1: "length b1 = n" using assigned_length[OF t1(3)] len0 by simp
  have ra1: "\<forall>i\<in>set av1. 0 \<le> i \<and> i < int n" using r0 t1(1) by auto
  from assignChoice_assigned[of ?idx n b1 av1 E_choice_dice_money "nat nd", OF idx len1 ra1]
  obtain t2 where t2: "av1 = av2 @ rev t2" "length t2 = min (nat nd) (length av1)"
    "assigned [E_choice_dice_money] (map nat t2) b1 b2"
    unfolding e4 fst_conv snd_conv by blast
  have np: "minChoicePickDieSquares ?config \<le> np" "np \<le> maxChoicePickDieSquares ?config"
    using getRandomInt_range[OF vg3 qs(3)] unfolding e5 by simp_all
  have len2: "length b2 = n" using assigned_length[OF t2(3)] len1 by simp
  have ra2: "\<forall>i\<in>set av2. 0 \<le> i \<and> i < int n" using ra1 t2(1) by auto
  from assignChoice_assigned[of ?idx n b2 av2 E_choice_pick_die "nat np", OF idx len2 ra2]
  obtain t3 where t3: "av2 = av3 @ rev t3" "length t3 = min (nat np) (length av2)"
    "assigned [E_choice_pick_die] (map nat t3) b2 b3"
    unfolding e6 fst_conv snd_conv by blast
  have len3: "length b3 = n" using assigned_length[OF t3(3)] len2 by simp
  have ra3: "\<forall>i\<in>set av3. 0 \<le> i \<and> i < int n" using ra2 t3(1) by auto
  have t4: "assigned [E_huge_money, E_normal_money] (map nat av3) b3 b4"
    unfolding b4_def by (rule assignMoney_assigned[OF idx len3 ra3])
  have split: "av0 = av3 @ rev t3 @ rev t2 @ rev t1"
    unfolding t1(1) t2(1) t3(1) by simp
  have l1: "length t1 = min (nat nb) (length (av3 @ rev t3 @ rev t2 @ rev t1))"
    using t1(2) unfolding split .
  have l2: "length t2 = min (nat nd) (length (av3 @ rev t3 @ rev t2))"
    using t2(2) unfolding t2(1) t3(1) by simp
  have l3: "length t3 = min (nat np) (length (av3 @ rev t3))"
    using t3(2) unfolding t3(1) .
  have s1: "set (av3 @ rev t3 @ rev t2 @ rev t1) = set (candidateSquareIds s)"
    using av0(2) unfolding split cands .
  have s2: "distinct (av3 @ rev t3 @ rev t2 @ rev t1)"
    using av0(3) unfolding split .
  have s3: "length (av3 @ rev t3 @ rev t2 @ rev t1) = length (candidateSquareIds s)"
    using av0(1) unfolding split cands .
  have "minBadSquares ?config \<le> nb \<and> nb \<le> maxBadSquares ?config \<and>
     minChoiceDiceMoneySquares ?config \<le> nd \<and> nd \<le> maxChoiceDiceMoneySquares ?config \<and>
     minChoicePickDieSquares ?config \<le> np \<and> np \<le> maxChoicePickDieSquares ?config \<and>
     set (av3 @ rev t3 @ rev t2 @ rev t1) = set (candidateSquareIds s) \<and>
     distinct (av3 @ rev t3 @ rev t2 @ rev t1) \<and>
     length (av3 @ rev t3 @ rev t2 @ rev t1) = length (candidateSquareIds s) \<and>
     length t1 = min (nat nb) (length (av3 @ rev t3 @ rev t2 @ rev t1)) \<and>
     length t2 = min (nat nd) (length (av3 @ rev t3 @ rev t2)) \<and>
     length t3 = min (nat np) (length (av3 @ rev t3)) \<and>
     assigned [E_temp_bad_lap] (map nat t1) ?b0 b1 \<and>
     assigned [E_choice_dice_money] (map nat t2) b1 b2 \<and>
     assigned [E_choice_pick_die] (map nat t3) b2 b3 \<and>
     assigned [E_huge_money, E_normal_money] (map nat av3) b3
       (boardSquares (fst (setupLapEffects s g)))"
    unfolding out
    using nb nd np s1 s2 s3 l1 l2 l3 t1(3) t2(3) t3(3) t4 by (intro conjI)
  then show ?thesis
    apply -
    apply (rule exI)+
    apply assumption
    done
qed

lemma nat_map_member:
  assumes "j \<in> set (map nat t)" "\<forall>i\<in>set t. (0::int) \<le> i"
  shows "int j \<in> set t"
proof -
  from assms(1) obtain i where "i \<in> set t" "nat i = j" by auto
  with assms(2) show ?thesis by auto
qed

lemma setupLapEffects_counts:
  assumes rng: "valid_rng g" and wf: "boardWellFormed s"
    and q: "quotasOrdered (currentStageConfig s)"
  shows "\<exists>nb nd np kb kd kp.
     minBadSquares (currentStageConfig s) \<le> nb \<and> nb \<le> maxBadSquares (currentStageConfig s) \<and>
     minChoiceDiceMoneySquares (currentStageConfig s) \<le> nd \<and>
     nd \<le> maxChoiceDiceMoneySquares (currentStageConfig s) \<and>
     minChoicePickDieSquares (currentStageConfig s) \<le> np \<and>
     np \<le> maxChoicePickDieSquares (currentStageConfig s) \<and>
     kb = min (nat nb) (length (candidateSquareIds s)) \<and>
     kd = min (nat nd) (length (candidateSquareIds s) - kb) \<and>
     kp = min (nat np) (length (candidateSquareIds s) - kb - kd) \<and>
     countEffects [E_temp_bad_lap] (boardSquares (fst (setupLapEffects s g))) = kb \<and>
     countEffects [E_choice_dice_money] (boardSquares (fst (setupLapEffects s g))) = kd \<and>
     countEffects [E_choice_pick_die] (boardSquares (fst (setupLapEffects s g))) = kp \<and>
     countEffects [E_huge_money, E_normal_money] (boardSquares (fst (setupLapEffects s g)))
       = length (candidateSquareIds s) - kb - kd - kp"
    and "length (boardSquares (fst (setupLapEffects s g))) = length (boardSquares s)"
    and "map sq_id (boardSquares (fst (setupLapEffects s g))) = map sq_id (boardSquares s)"
    and "map baseType (boardSquares (fst (setupLapEffects s g))) = map baseType (boardSquares s)"
    and "\<And>j. j < length (boardSquares s) \<Longrightarrow> int j \<notin> set (candidateSquareIds s) \<Longrightarrow>
           boardSquares (fst (setupLapEffects s g)) ! j = resetSquare (boardSquares s ! j)"
proof -
  let ?b0 = "map resetSquare (boardSquares s)"
  let ?b4 = "boardSquares (fst (setupLapEffects s g))"
  let ?C = "candidateSquareIds s"
  obtain nb nd np t1 t2 t3 rest b1 b2 b3 where
    nb: "minBadSquares (currentStageConfig s) \<le> nb" "nb \<le> maxBadSquares (currentStageConfig s)"
    and nd: "minChoiceDiceMoneySquares (currentStageConfig s) \<le> nd"
      "nd \<le> maxChoiceDiceMoneySquares (currentStageConfig s)"
    and np: "minChoicePickDieSquares (currentStageConfig s) \<le> np"
       "np \<le> maxChoicePickDieSquares (currentStageConfig s)"
    and cs: "set (rest @ rev t3 @ rev t2 @ rev t1) = set ?C"
    and cd: "distinct (rest @ rev t3 @ rev t2 @ rev t1)"
    and cl: "length (rest @ rev t3 @ rev t2 @ rev t1) = length ?C"
    and l1: "length t1 = min (nat nb) (length (rest @ rev t3 @ rev t2 @ rev t1))"
    and l2: "length t2 = min (nat nd) (length (rest @ rev t3 @ rev t2))"
    and l3: "length t3 = min (nat np) (length (rest @ rev t3))"
    and a1: "assigned [E_temp_bad_lap] (map nat t1) ?b0 b1"
    and a2: "assigned [E_choice_dice_money] (map nat t2) b1 b2"
    and a3: "assigned [E_choice_pick_die] (map nat t3) b2 b3"
    and a4: "assigned [E_huge_money, E_normal_money] (map nat rest) b3 ?b4"
    using setupLapEffects_assigned[OF assms] by blast
  have ids: "map sq_id (boardSquares s) = map int [0 ..< length (boardSquares s)]"
    using wf by (simp add: boardWellFormed_def)
  have nonneg: "\<forall>i\<in>set ?C. 0 \<le> i" using candidates_numbered(2)[OF ids] by simp
  have sub: "set t1 \<subseteq> set ?C" "set t2 \<subseteq> set ?C" "set t3 \<subseteq> set ?C" "set rest \<subseteq> set ?C"
    using cs by auto
  have nn: "\<forall>i\<in>set t1. 0 \<le> i" "\<forall>i\<in>set t2. 0 \<le> i" "\<forall>i\<in>set t3. 0 \<le> i"
    "\<forall>i\<in>set rest. 0 \<le> i"
    using sub nonneg by auto
  have dist: "distinct t1" "distinct t2" "distinct t3" "distinct rest"
    and disj: "set t1 \<inter> set t2 = {}" "set t1 \<inter> set t3 = {}" "set t1 \<inter> set rest = {}"
      "set t2 \<inter> set t3 = {}" "set t2 \<inter> set rest = {}" "set t3 \<inter> set rest = {}"
    using cd by auto
  let ?k1 = "map nat t1" and ?k2 = "map nat t2" and ?k3 = "map nat t3" and ?k4 = "map nat rest"
  have kd: "distinct ?k1" "distinct ?k2" "distinct ?k3" "distinct ?k4"
    using nat_map_distinct[OF nn(1) dist(1)] nat_map_distinct[OF nn(2) dist(2)]
      nat_map_distinct[OF nn(3) dist(3)] nat_map_distinct[OF nn(4) dist(4)] by blast+
  have kj: "set ?k1 \<inter> set ?k2 = {}" "set ?k1 \<inter> set ?k3 = {}" "set ?k1 \<inter> set ?k4 = {}"
      "set ?k2 \<inter> set ?k3 = {}" "set ?k2 \<inter> set ?k4 = {}" "set ?k3 \<inter> set ?k4 = {}"
    using nat_image_disjoint[OF nn(1) nn(2) disj(1)] nat_image_disjoint[OF nn(1) nn(3) disj(2)]
      nat_image_disjoint[OF nn(1) nn(4) disj(3)] nat_image_disjoint[OF nn(2) nn(3) disj(4)]
      nat_image_disjoint[OF nn(2) nn(4) disj(5)] nat_image_disjoint[OF nn(3) nn(4) disj(6)]
    by blast+
  have len: "length b1 = length ?b0" "length b2 = length ?b0" "length b3 = length ?b0"
    "length ?b4 = length ?b0"
    using assigned_length[OF a1] assigned_length[OF a2] assigned_length[OF a3]
      assigned_length[OF a4] by simp_all
  have rg: "\<forall>k\<in>set ?k1. k < length ?b0" "\<forall>k\<in>set ?k2. k < length ?b0"
    "\<forall>k\<in>set ?k3. k < length ?b0" "\<forall>k\<in>set ?k4. k < length ?b0"
    using assigned_in_range[OF a1] assigned_in_range[OF a2] assigned_in_range[OF a3]
      assigned_in_range[OF a4] len by simp_all
  have all0: "\<forall>sq\<in>set ?b0. currentEffectType sq = E_none" using wf by (rule reset_all_none)
  have none0: "\<forall>k\<in>set ks. currentEffectType (?b0 ! k) = E_none"
    if "\<forall>k\<in>set ks. k < length ?b0" for ks
  proof
    fix k assume "k \<in> set ks"
    with that have "k < length ?b0" by blast
    hence "?b0 ! k \<in> set ?b0" by (rule nth_mem)
    with all0 show "currentEffectType (?b0 ! k) = E_none" by blast
  qed
  have n1: "\<forall>k\<in>set ?k1. currentEffectType (?b0 ! k) = E_none" using rg(1) by (rule none0)
  have n2: "\<forall>k\<in>set ?k2. currentEffectType (b1 ! k) = E_none"
    using a1 none0[OF rg(2)] kj(1) by (rule assigned_none_frame)
  have n3': "\<forall>k\<in>set ?k3. currentEffectType (b1 ! k) = E_none"
    using a1 none0[OF rg(3)] kj(2) by (rule assigned_none_frame)
  have n3: "\<forall>k\<in>set ?k3. currentEffectType (b2 ! k) = E_none"
    using a2 n3' kj(4) by (rule assigned_none_frame)
  have n4'': "\<forall>k\<in>set ?k4. currentEffectType (b1 ! k) = E_none"
    using a1 none0[OF rg(4)] kj(3) by (rule assigned_none_frame)
  have n4': "\<forall>k\<in>set ?k4. currentEffectType (b2 ! k) = E_none"
    using a2 n4'' kj(5) by (rule assigned_none_frame)
  have n4: "\<forall>k\<in>set ?k4. currentEffectType (b3 ! k) = E_none"
    using a3 n4' kj(6) by (rule assigned_none_frame)
  have z: "countEffects [E_temp_bad_lap] ?b0 = 0" "countEffects [E_choice_dice_money] ?b0 = 0"
    "countEffects [E_choice_pick_die] ?b0 = 0" "countEffects [E_huge_money, E_normal_money] ?b0 = 0"
    using all0 by (simp_all add: countEffects_all_none)
  have bad: "countEffects [E_temp_bad_lap] ?b4 = length t1"
  proof -
    have "countEffects [E_temp_bad_lap] b1 = length t1"
      using assigned_none_count[OF a1 kd(1) n1] z(1) by simp
    moreover have "countEffects [E_temp_bad_lap] b2 = countEffects [E_temp_bad_lap] b1"
      using a2 n2 by (rule assigned_none_other) simp_all
    moreover have "countEffects [E_temp_bad_lap] b3 = countEffects [E_temp_bad_lap] b2"
      using a3 n3 by (rule assigned_none_other) simp_all
    moreover have "countEffects [E_temp_bad_lap] ?b4 = countEffects [E_temp_bad_lap] b3"
      using a4 n4 by (rule assigned_none_other) simp_all
    ultimately show ?thesis by simp
  qed
  have dm: "countEffects [E_choice_dice_money] ?b4 = length t2"
  proof -
    have "countEffects [E_choice_dice_money] b1 = countEffects [E_choice_dice_money] ?b0"
      using a1 n1 by (rule assigned_none_other) simp_all
    moreover have "countEffects [E_choice_dice_money] b2
        = countEffects [E_choice_dice_money] b1 + length ?k2"
      using a2 kd(2) n2 by (rule assigned_none_count) simp
    moreover have "countEffects [E_choice_dice_money] b3 = countEffects [E_choice_dice_money] b2"
      using a3 n3 by (rule assigned_none_other) simp_all
    moreover have "countEffects [E_choice_dice_money] ?b4 = countEffects [E_choice_dice_money] b3"
      using a4 n4 by (rule assigned_none_other) simp_all
    ultimately show ?thesis using z(2) by simp
  qed
  have pick: "countEffects [E_choice_pick_die] ?b4 = length t3"
  proof -
    have "countEffects [E_choice_pick_die] b1 = countEffects [E_choice_pick_die] ?b0"
      using a1 n1 by (rule assigned_none_other) simp_all
    moreover have "countEffects [E_choice_pick_die] b2 = countEffects [E_choice_pick_die] b1"
      using a2 n2 by (rule assigned_none_other) simp_all
    moreover have "countEffects [E_choice_pick_die] b3
        = countEffects [E_choice_pick_die] b2 + length ?k3"
      using a3 kd(3) n3 by (rule assigned_none_count) simp
    moreover have "countEffects [E_choice_pick_die] ?b4 = countEffects [E_choice_pick_die] b3"
      using a4 n4 by (rule assigned_none_other) simp_all
    ultimately show ?thesis using z(3) by simp
  qed
  have money: "countEffects [E_huge_money, E_normal_money] ?b4 = length rest"
  proof -
    have "countEffects [E_huge_money, E_normal_money] b1
        = countEffects [E_huge_money, E_normal_money] ?b0"
      using a1 n1 by (rule assigned_none_other) simp_all
    moreover have "countEffects [E_huge_money, E_normal_money] b2
        = countEffects [E_huge_money, E_normal_money] b1"
      using a2 n2 by (rule assigned_none_other) simp_all
    moreover have "countEffects [E_huge_money, E_normal_money] b3
        = countEffects [E_huge_money, E_normal_money] b2"
      using a3 n3 by (rule assigned_none_other) simp_all
    moreover have "countEffects [E_huge_money, E_normal_money] ?b4
        = countEffects [E_huge_money, E_normal_money] b3 + length ?k4"
      using a4 kd(4) n4 by (rule assigned_none_count) simp
    ultimately show ?thesis using z(4) by simp
  qed
  have lens: "length t1 = min (nat nb) (length ?C)"
    "length t2 = min (nat nd) (length ?C - length t1)"
    "length t3 = min (nat np) (length ?C - length t1 - length t2)"
    "length rest = length ?C - length t1 - length t2 - length t3"
  proof -
    have e2: "length (rest @ rev t3 @ rev t2) = length ?C - length t1" using cl by simp
    have e3: "length (rest @ rev t3) = length ?C - length t1 - length t2" using cl by simp
    show "length t1 = min (nat nb) (length ?C)" using l1 unfolding cl .
    show "length t2 = min (nat nd) (length ?C - length t1)" using l2 unfolding e2 .
    show "length t3 = min (nat np) (length ?C - length t1 - length t2)" using l3 unfolding e3 .
    show "length rest = length ?C - length t1 - length t2 - length t3" using cl by simp
  qed
  have "minBadSquares (currentStageConfig s) \<le> nb \<and> nb \<le> maxBadSquares (currentStageConfig s) \<and>
     minChoiceDiceMoneySquares (currentStageConfig s) \<le> nd \<and>
     nd \<le> maxChoiceDiceMoneySquares (currentStageConfig s) \<and>
     minChoicePickDieSquares (currentStageConfig s) \<le> np \<and>
     np \<le> maxChoicePickDieSquares (currentStageConfig s) \<and>
     length t1 = min (nat nb) (length ?C) \<and>
     length t2 = min (nat nd) (length ?C - length t1) \<and>
     length t3 = min (nat np) (length ?C - length t1 - length t2) \<and>
     countEffects [E_temp_bad_lap] ?b4 = length t1 \<and>
     countEffects [E_choice_dice_money] ?b4 = length t2 \<and>
     countEffects [E_choice_pick_die] ?b4 = length t3 \<and>
     countEffects [E_huge_money, E_normal_money] ?b4
       = length ?C - length t1 - length t2 - length t3"
    using nb nd np lens(1,2,3) bad dm pick money[unfolded lens(4)] by blast
  then show "\<exists>nb nd np kb kd kp.
     minBadSquares (currentStageConfig s) \<le> nb \<and> nb \<le> maxBadSquares (currentStageConfig s) \<and>
     minChoiceDiceMoneySquares (currentStageConfig s) \<le> nd \<and>
     nd \<le> maxChoiceDiceMoneySquares (currentStageConfig s) \<and>
     minChoicePickDieSquares (currentStageConfig s) \<le> np \<and>
     np \<le> maxChoicePickDieSquares (currentStageConfig s) \<and>
     kb = min (nat nb) (length ?C) \<and>
     kd = min (nat nd) (length ?C - kb) \<and>
     kp = min (nat np) (length ?C - kb - kd) \<and>
     countEffects [E_temp_bad_lap] ?b4 = kb \<and>
     countEffects [E_choice_dice_money] ?b4 = kd \<and>
     countEffects [E_choice_pick_die] ?b4 = kp \<and>
     countEffects [E_huge_money, E_normal_money] ?b4 = length ?C - kb - kd - kp"
    apply -
    apply (rule exI)+
    apply assumption
    done
  show "length ?b4 = length (boardSquares s)" using len(4) by simp
  show "map sq_id ?b4 = map sq_id (boardSquares s)"
    using assigned_ids[OF a1] assigned_ids[OF a2] assigned_ids[OF a3] assigned_ids[OF a4]
    by (simp add: comp_def)
  show "map baseType ?b4 = map baseType (boardSquares s)"
    using assigned_ids[OF a1] assigned_ids[OF a2] assigned_ids[OF a3] assigned_ids[OF a4]
    by (simp add: comp_def)
  show "?b4 ! j = resetSquare (boardSquares s ! j)"
    if j: "j < length (boardSquares s)" "int j \<notin> set ?C" for j
  proof -
    have out: "j \<notin> set (map nat t)" if "set t \<subseteq> set ?C" for t
    proof
      assume "j \<in> set (map nat t)"
      moreover have "\<forall>i\<in>set t. 0 \<le> i" using that nonneg by auto
      ultimately have "int j \<in> set t" by (rule nat_map_member)
      with that j(2) show False by auto
    qed
    have "?b4 ! j = b3 ! j" using a4 out[OF sub(4)] by (rule assigned_frame)
    also have "\<dots> = b2 ! j" using a3 out[OF sub(3)] by (rule assigned_frame)
    also have "\<dots> = b1 ! j" using a2 out[OF sub(2)] by (rule assigned_frame)
    also have "\<dots> = ?b0 ! j" using a1 out[OF sub(1)] by (rule assigned_frame)
    finally show ?thesis using j(1) by simp
  qed
qed

lemma generateBoardLayout_wellFormed: "boardWellFormed (generateBoardLayout s)"
  by (simp add: boardWellFormed_def generateBoardLayout_def newSquare_def list_all_iff comp_def)

lemma stage_quotas_ordered:
  "quotasOrdered stage1" "quotasOrdered stage2" "quotasOrdered stage3" "quotasOrdered stage4"
  "quotasOrdered stage5"
  by (simp_all add: quotasOrdered_def stage1_def stage2_def stage3_def stage4_def stage5_def)

lemma setupLapEffects_config:
  "currentStageConfig (fst (setupLapEffects s g)) = currentStageConfig s"
  "cornerSquareIds (fst (setupLapEffects s g)) = cornerSquareIds s"
proof -
  obtain b g' where e: "setupLapEffects s g = (s\<lparr>boardSquares := b\<rparr>, g')"
    using setupLapEffects_board by blast
  show "currentStageConfig (fst (setupLapEffects s g)) = currentStageConfig s"
    unfolding e by simp
  show "cornerSquareIds (fst (setupLapEffects s g)) = cornerSquareIds s"
    unfolding e by simp
qed

lemma setupLapEffects_squares:
  assumes rng: "valid_rng g" and wf: "boardWellFormed s"
    and q: "quotasOrdered (currentStageConfig s)"
    and j: "j < length (boardSquares s)"
  shows "sq_id (boardSquares (fst (setupLapEffects s g)) ! j) = int j"
    and "(baseType (boardSquares (fst (setupLapEffects s g)) ! j) = B_normal \<and>
          int j \<notin> set (cornerSquareIds s)) \<or>
         (currentEffectType (boardSquares (fst (setupLapEffects s g)) ! j) = E_none \<and>
          \<not> isTempBad (boardSquares (fst (setupLapEffects s g)) ! j))"
proof -
  let ?b = "boardSquares s" and ?b' = "boardSquares (fst (setupLapEffects s g))"
  note c = setupLapEffects_counts[OF rng wf q]
  have ids: "map sq_id ?b = map int [0 ..< length ?b]"
    using wf by (simp add: boardWellFormed_def)
  have len: "length ?b' = length ?b" by (rule c(2))
  have "sq_id (?b' ! j) = map sq_id ?b' ! j" using j len by simp
  also have "\<dots> = map int [0 ..< length ?b] ! j" unfolding c(3) ids ..
  also have "\<dots> = int j" using j by simp
  finally show "sq_id (?b' ! j) = int j" .
  have bt: "baseType (?b' ! j) = baseType (?b ! j)"
  proof -
    have "baseType (?b' ! j) = map baseType ?b' ! j" using j len by simp
    also have "\<dots> = map baseType ?b ! j" unfolding c(4) ..
    also have "\<dots> = baseType (?b ! j)" using j by simp
    finally show ?thesis .
  qed
  show "(baseType (?b' ! j) = B_normal \<and> int j \<notin> set (cornerSquareIds s)) \<or>
        (currentEffectType (?b' ! j) = E_none \<and> \<not> isTempBad (?b' ! j))"
  proof (cases "int j \<in> set (candidateSquareIds s)")
    case True
    then show ?thesis using candidates_numbered(3)[OF ids j] bt by simp
  next
    case False
    with j have e: "?b' ! j = resetSquare (?b ! j)" by (rule c(5))
    have "resetSquare (?b ! j) \<in> set (map resetSquare ?b)" using j by simp
    with reset_all_none[OF wf] have "currentEffectType (resetSquare (?b ! j)) = E_none"
      by blast
    moreover have "\<not> isTempBad (resetSquare (?b ! j))" by (simp add: resetSquare_def)
    ultimately show ?thesis unfolding e by simp
  qed
qed

lemma setupLapEffects_each:
  assumes "valid_rng g" and "boardWellFormed s" and "quotasOrdered (currentStageConfig s)"
    and "x \<in> set (boardSquares (fst (setupLapEffects s g)))"
  shows "(baseType x = B_normal \<and> sq_id x \<notin> set (cornerSquareIds s)) \<or>
      (currentEffectType x = E_none \<and> \<not> isTempBad x)"
proof -
  let ?b = "boardSquares s" and ?b' = "boardSquares (fst (setupLapEffects s g))"
  note c = setupLapEffects_counts[OF assms(1-3)]
  note sq = setupLapEffects_squares[OF assms(1-3)]
  from assms(4) obtain j where j: "j < length ?b'" "x = ?b' ! j" by (metis in_set_conv_nth)
  from j(1) c(2) have "j < length ?b" by simp
  from sq(1)[OF this] sq(2)[OF this] show ?thesis unfolding j(2) by simp
qed

lemma setupLapEffects_wellFormed:
  assumes "valid_rng g" and "boardWellFormed s" and "quotasOrdered (currentStageConfig s)"
  shows "boardWellFormed (fst (setupLapEffects s g))"
  unfolding boardWellFormed_def setupLapEffects_config list_all_iff
proof (intro conjI ballI)
  let ?b = "boardSquares s" and ?b' = "boardSquares (fst (setupLapEffects s g))"
  note c = setupLapEffects_counts[OF assms]
  have ids: "map sq_id ?b = map int [0 ..< length ?b]"
    using assms(2) by (simp add: boardWellFormed_def)
  show "map sq_id ?b' = map int [0 ..< length ?b']" unfolding c(2) c(3) by (rule ids)
  fix x assume "x \<in> set ?b'"
  from setupLapEffects_each[OF assms this]
  show "(baseType x = B_normal \<and> sq_id x \<notin> set (cornerSquareIds s)) \<or>
        currentEffectType x = E_none" by blast
qed

lemma Math_random_rng: "valid_rng g \<Longrightarrow> valid_rng (snd (Math_random g))"
  by (simp add: Math_random_def valid_rng_tl)

lemma getRandomInt_rng: "valid_rng g \<Longrightarrow> valid_rng (snd (getRandomInt lo hi g))"
  by (simp add: getRandomInt_snd valid_rng_tl)

lemma assignMoney_rng:
  "valid_rng g \<Longrightarrow> valid_rng (snd (assignMoney idx huge mult ids b g))"
proof (induction ids arbitrary: b g)
  case Nil
  then show ?case by simp
next
  case (Cons i ids)
  have a: "valid_rng (snd (Math_random g))" using Cons.prems by (rule Math_random_rng)
  then have b: "valid_rng (snd (getRandomInt 1 3 (snd (Math_random g))))"
    by (rule getRandomInt_rng)
  show ?case
    using Cons.prems Cons.IH a b by (simp add: case_prod_beta split: option.splits)
qed

lemma setupLapEffects_rng:
  assumes rng: "valid_rng g"
  shows "valid_rng (snd (setupLapEffects s g))"
proof -
  let ?config = "currentStageConfig s"
  let ?b0 = "map resetSquare (boardSquares s)"
  let ?idx = "squareIdToIndexMap ?b0"
  let ?cands = "candidateSquareIds (s\<lparr>boardSquares := ?b0\<rparr>)"
  obtain av0 g0 where e0: "shuffleArray ?cands g = (av0, g0)"
    by (cases "shuffleArray ?cands g")
  obtain nb g1 where e1: "getRandomInt (minBadSquares ?config) (maxBadSquares ?config) g0 = (nb, g1)"
    by (cases "getRandomInt (minBadSquares ?config) (maxBadSquares ?config) g0")
  obtain av1 b1 g2 where e2: "assignBad (nat nb) ?idx (playerStage s) av0 ?b0 g1 = (av1, b1, g2)"
    by (cases "assignBad (nat nb) ?idx (playerStage s) av0 ?b0 g1")
  obtain nd g3 where e3: "getRandomInt (minChoiceDiceMoneySquares ?config)
        (maxChoiceDiceMoneySquares ?config) g2 = (nd, g3)"
    by (cases "getRandomInt (minChoiceDiceMoneySquares ?config)
        (maxChoiceDiceMoneySquares ?config) g2")
  obtain av2 b2 where e4: "assignChoice E_choice_dice_money (nat nd) ?idx av1 b1 = (av2, b2)"
    by (cases "assignChoice E_choice_dice_money (nat nd) ?idx av1 b1")
  obtain np g4 where e5: "getRandomInt (minChoicePickDieSquares ?config)
        (maxChoicePickDieSquares ?config) g3 = (np, g4)"
    by (cases "getRandomInt (minChoicePickDieSquares ?config)
        (maxChoicePickDieSquares ?config) g3")
  obtain av3 b3 where e6: "assignChoice E_choice_pick_die (nat np) ?idx av2 b2 = (av3, b3)"
    by (cases "assignChoice E_choice_pick_die (nat np) ?idx av2 b2")
  define g5 where "g5 = snd (assignMoney ?idx (currentHugeMoneyValue s) (moneyMultiplier ?config)
                               av3 b3 g4)"
  have out: "snd (setupLapEffects s g) = g5"
    by (simp add: setupLapEffects_def Let_def e0 e1 e2 e3 e4 e5 e6 g5_def case_prod_beta)
  have vg0: "valid_rng g0" using shuffleArray_perm(4)[OF rng, of ?cands] unfolding e0 by simp
  have vg1: "valid_rng g1"
    using getRandomInt_rng[OF vg0, of "minBadSquares ?config" "maxBadSquares ?config"]
    unfolding e1 by simp
  have vg2: "valid_rng g2"
    using assignBad_rng[OF vg1, of "nat nb" ?idx "playerStage s" av0 ?b0] unfolding e2 by simp
  have vg3: "valid_rng g3"
    using getRandomInt_rng[OF vg2, of "minChoiceDiceMoneySquares ?config"
        "maxChoiceDiceMoneySquares ?config"]
    unfolding e3 by simp
  have vg4: "valid_rng g4"
    using getRandomInt_rng[OF vg3, of "minChoicePickDieSquares ?config"
        "maxChoicePickDieSquares ?config"]
    unfolding e5 by simp
  show ?thesis unfolding out g5_def using vg4 by (rule assignMoney_rng)
qed

lemma setupLapEffects_lapInv:
  assumes "valid_rng g" "lapInv s"
  shows "lapInv (fst (setupLapEffects s g))"
  using assms setupLapEffects_wellFormed[of g s]
  by (simp add: lapInv_def setupLapEffects_config)

lemma lapInv_frame:
  assumes "boardSquares t = boardSquares s" "currentStageConfig t = currentStageConfig s"
  shows "lapInv t = lapInv s"
  by (simp add: lapInv_def boardWellFormed_def cornerSquareIds_def assms)

lemma lapInv_clear:
  assumes "lapInv s" "boardSquares t = (boardSquares s)
      [k := (boardSquares s ! k)\<lparr>currentEffectType := E_none, effectDetails := None\<rparr>]"
    "currentStageConfig t = currentStageConfig s"
  shows "lapInv t"
proof (cases "k < length (boardSquares s)")
  case False
  then have "boardSquares t = boardSquares s" unfolding assms(2) by (simp add: list_update_beyond)
  then have "lapInv t = lapInv s" using assms(3) by (rule lapInv_frame)
  then show ?thesis using assms(1) by simp
next
  case True
  let ?b = "boardSquares s"
  let ?x = "(?b ! k)\<lparr>currentEffectType := E_none, effectDetails := None\<rparr>"
  have ids: "map sq_id ?b = map int [0 ..< length ?b]"
    and all: "\<forall>sq\<in>set ?b. (baseType sq = B_normal \<and> sq_id sq \<notin> set (cornerSquareIds s)) \<or>
                     currentEffectType sq = E_none"
    and q: "quotasOrdered (currentStageConfig s)"
    using assms(1) by (simp_all add: lapInv_def boardWellFormed_def list_all_iff)
  have c: "cornerSquareIds t = cornerSquareIds s" by (simp add: cornerSquareIds_def assms(3))
  have same: "map sq_id (?b[k := ?x]) = map sq_id ?b"
    using True by (intro nth_equalityI) (simp_all add: nth_list_update)
  have i: "map sq_id (?b[k := ?x]) = map int [0 ..< length (?b[k := ?x])]"
    unfolding same length_list_update by (rule ids)
  have a: "\<forall>sq\<in>set (?b[k := ?x]). (baseType sq = B_normal \<and> sq_id sq \<notin> set (cornerSquareIds s)) \<or>
                     currentEffectType sq = E_none"
  proof
    fix sq assume "sq \<in> set (?b[k := ?x])"
    then have "sq \<in> insert ?x (set ?b)" by (rule set_update_subset_insert[THEN subsetD])
    then consider "sq = ?x" | "sq \<in> set ?b" by blast
    then show "(baseType sq = B_normal \<and> sq_id sq \<notin> set (cornerSquareIds s)) \<or>
                     currentEffectType sq = E_none"
    proof cases
      case 1
      then show ?thesis by simp
    next
      case 2
      with all show ?thesis by blast
    qed
  qed
  have w: "boardWellFormed t"
    unfolding boardWellFormed_def list_all_iff c
    unfolding assms(2)
    using i a by (intro conjI)
  have q': "quotasOrdered (currentStageConfig t)" unfolding assms(3) by (rule q)
  show ?thesis unfolding lapInv_def using w q' by (rule conjI)
qed


lemma handleBossEncounter_lapInv:
  assumes "handleBossEncounter s = Inr t" "lapInv s"
  shows "lapInv t"
proof -
  from assms(1) have "boardSquares t = boardSquares s" "currentStageConfig t = currentStageConfig s"
    by (auto simp add: handleBossEncounter_def Let_def split: option.splits)
  then have "lapInv t = lapInv s" by (rule lapInv_frame)
  with assms(2) show ?thesis by simp
qed

lemma landingEffect_lapInv:
  assumes "lapInv s" "sq = boardSquares s ! k"
  shows "lapInv (landingEffect k sq s g)"
proof -
  have cfg: "currentStageConfig (landingEffect k sq s g) = currentStageConfig s"
    by (simp add: landingEffect_def Let_def case_prod_beta split: effect_type.splits)
  show ?thesis
  proof (cases "currentEffectType sq = E_huge_money")
    case True
    then have "boardSquares (landingEffect k sq s g) =
        (boardSquares s)[k := (boardSquares s ! k)\<lparr>currentEffectType := E_none, effectDetails := None\<rparr>]"
      by (simp add: landingEffect_def Let_def assms(2))
    with assms(1) show ?thesis using cfg by (rule lapInv_clear)
  next
    case False
    then have "boardSquares (landingEffect k sq s g) = boardSquares s"
      by (simp add: landingEffect_def Let_def case_prod_beta split: effect_type.splits)
    then have "lapInv (landingEffect k sq s g) = lapInv s" using cfg by (rule lapInv_frame)
    with assms(1) show ?thesis by simp
  qed
qed

lemma handleSquareLanding_lapInv:
  assumes "lapInv s"
  shows "lapInv (handleSquareLanding s g)"
proof (cases "isGameOver s \<or> (isAnimating s \<and> gamePhase s \<noteq> landed)")
  case True
  then show ?thesis using assms by (simp add: handleSquareLanding_def)
next
  case False
  show ?thesis
  proof (cases "arr_get (boardSquares s) (playerPosition s)")
    case None
    from False have f: "(isGameOver s \<or> (isAnimating s \<and> gamePhase s \<noteq> landed)) = False"
      by simp
    have "handleSquareLanding s g = s\<lparr>gamePhase := rolling, isAnimating := False\<rparr>"
      unfolding handleSquareLanding_def f None by simp
    moreover have "lapInv (s\<lparr>gamePhase := rolling, isAnimating := False\<rparr>) = lapInv s"
      by (rule lapInv_frame) simp_all
    ultimately show ?thesis using assms by simp
  next
    case (Some sq)
    define s' where "s' = (if baseType sq = B_corner_br then s\<lparr>playerMoney := playerMoney s - 20\<rparr> else s)"
    from False have f: "(isGameOver s \<or> (isAnimating s \<and> gamePhase s \<noteq> landed)) = False"
      by simp
    have e: "handleSquareLanding s g = landingEffect (nat (playerPosition s)) sq s' g"
      unfolding handleSquareLanding_def f Some s'_def by simp
    have "lapInv s' = lapInv s" by (rule lapInv_frame) (simp_all add: s'_def)
    with assms have i: "lapInv s'" by simp
    have "sq = boardSquares s ! nat (playerPosition s)"
      using Some by (simp add: arr_get_def split: if_splits)
    then have "sq = boardSquares s' ! nat (playerPosition s)" by (simp add: s'_def)
    with i show ?thesis unfolding e by (rule landingEffect_lapInv)
  qed
qed

lemma playerMakesChoice_lapInv:
  assumes "lapInv s"
  shows "lapInv (playerMakesChoice chosenOption s)"
proof (cases "gamePhase s \<noteq> awaiting_choice \<or> choiceDetails s = None")
  case True
  then show ?thesis using assms by (simp add: playerMakesChoice_def)
next
  case False
  define s1 where "s1 = (case chosenOption of
                     get_money_bonus v \<Rightarrow> s\<lparr>isAnimating := True, playerMoney := playerMoney s + v\<rparr>
                   | get_chosen_die d \<Rightarrow> addReservedDie d (s\<lparr>isAnimating := True\<rparr>))"
  define s2 where "s2 = (if 0 \<le> playerPosition s \<and> playerPosition s < int (length (boardSquares s1))
                   then s1\<lparr>boardSquares :=
                            (boardSquares s1)
                              [nat (playerPosition s) := (boardSquares s1 ! nat (playerPosition s))
                                 \<lparr>currentEffectType := E_none, effectDetails := None\<rparr>]\<rparr>
                   else s1)"
  have e: "playerMakesChoice chosenOption s =
      s2\<lparr>choiceDetails := None, gamePhase := rolling, isAnimating := False\<rparr>"
  proof -
    from False have f: "(gamePhase s \<noteq> awaiting_choice \<or> choiceDetails s = None) = False"
      by simp
    show ?thesis unfolding playerMakesChoice_def f Let_def s2_def s1_def by simp
  qed
  have "boardSquares s1 = boardSquares s" "currentStageConfig s1 = currentStageConfig s"
    by (simp_all add: s1_def addReservedDie_def split: choice_option.splits)
  then have "lapInv s1 = lapInv s" by (rule lapInv_frame)
  with assms have i1: "lapInv s1" by simp
  have i2: "lapInv s2"
  proof (cases "0 \<le> playerPosition s \<and> playerPosition s < int (length (boardSquares s1))")
    case True
    then have "boardSquares s2 = (boardSquares s1)
                              [nat (playerPosition s) := (boardSquares s1 ! nat (playerPosition s))
                                 \<lparr>currentEffectType := E_none, effectDetails := None\<rparr>]"
      and "currentStageConfig s2 = currentStageConfig s1"
      by (simp_all add: s2_def)
    with i1 show ?thesis by (rule lapInv_clear)
  next
    case False
    then have f: "(0 \<le> playerPosition s \<and> playerPosition s < int (length (boardSquares s1))) = False"
      by simp
    have "s2 = s1" unfolding s2_def f by simp
    with i1 show ?thesis by simp
  qed
  have "lapInv (s2\<lparr>choiceDetails := None, gamePhase := rolling, isAnimating := False\<rparr>) = lapInv s2"
    by (rule lapInv_frame) simp_all
  with i2 show ?thesis unfolding e by simp
qed

lemma setupStage_lapInv:
  assumes "valid_rng g" "quotasOrdered (currentStageConfig s)"
  shows "lapInv (fst (setupStage s g))"
proof -
  define s1 where "s1 = s\<lparr>boardRows := rows (currentStageConfig s),
      boardCols := cols (currentStageConfig s), playerLap := 1,
      playerPosition := 0, lastPlayerPositionBeforeThisMove := 0,
      lastDiceRoll := None, choiceDetails := None\<rparr>"
  have e: "fst (setupStage s g) =
      (fst (setupLapEffects (generateBoardLayout s1) g))\<lparr>gamePhase := rolling, isAnimating := False\<rparr>"
    by (simp add: setupStage_def Let_def s1_def case_prod_beta)
  have "currentStageConfig (generateBoardLayout s1) = currentStageConfig s"
    by (simp add: generateBoardLayout_def s1_def)
  with assms(2) have "lapInv (generateBoardLayout s1)"
    by (simp add: lapInv_def generateBoardLayout_wellFormed)
  with assms(1) have "lapInv (fst (setupLapEffects (generateBoardLayout s1) g))"
    by (rule setupLapEffects_lapInv)
  moreover have "lapInv ((fst (setupLapEffects (generateBoardLayout s1) g))
      \<lparr>gamePhase := rolling, isAnimating := False\<rparr>)
      = lapInv (fst (setupLapEffects (generateBoardLayout s1) g))"
    by (rule lapInv_frame) simp_all
  ultimately show ?thesis unfolding e by simp
qed

lemma initializeGame_lapInv:
  assumes "valid_rng g" "lapInv s"
  shows "lapInv (initializeGame s g)"
proof -
  define s1 where "s1 = s\<lparr>playerStage := 1, isGameOver := False, isAnimating := False,
                 reservedDice := [], playerMoney := 0\<rparr>"
  have q: "quotasOrdered (currentStageConfig s1)" using assms(2) by (simp add: lapInv_def s1_def)
  have i: "lapInv (fst (setupStage s1 g))" using assms(1) q by (rule setupStage_lapInv)
  have e: "initializeGame s g =
      (if gamePhase (fst (setupStage s1 g)) \<noteq> awaiting_choice
       then (fst (setupStage s1 g))\<lparr>gamePhase := rolling\<rparr> else fst (setupStage s1 g))"
    by (simp add: initializeGame_def Let_def s1_def case_prod_beta)
  have "lapInv ((fst (setupStage s1 g))\<lparr>gamePhase := rolling\<rparr>) = lapInv (fst (setupStage s1 g))"
    by (rule lapInv_frame) simp_all
  with i show ?thesis unfolding e by simp
qed

lemma resetGame_lapInv:
  assumes "valid_rng g"
  shows "lapInv (resetGame s g)"
  unfolding resetGame_def
  by (rule setupStage_lapInv[OF assms]) (simp add: stage_quotas_ordered)

lemma STAGE_CONFIGS_ordered: "STAGE_CONFIGS n = Some c \<Longrightarrow> quotasOrdered c"
  by (auto simp add: STAGE_CONFIGS_def stage_quotas_ordered split: if_splits)

lemma nextStage_lapInv:
  assumes "valid_rng g" "lapInv s"
  shows "lapInv (nextStage s g)"
proof -
  define s1 where "s1 = s\<lparr>playerStage := playerStage s + 1\<rparr>"
  define s2 where "s2 = s1\<lparr>playerLap := 0, currentDiceThrows := [], remainingBossRolls := 0,
                     gamePhase := rolling\<rparr>"
  have i1: "lapInv s1" using assms(2) lapInv_frame[of s1 s] by (simp add: s1_def)
  have i2: "lapInv s2" using i1 lapInv_frame[of s2 s1] by (simp add: s2_def)
  consider (over) "playerStage s1 > MAX_STAGES"
    | (none) "\<not> playerStage s1 > MAX_STAGES" "STAGE_CONFIGS (playerStage s2) = None"
    | (some) c where "\<not> playerStage s1 > MAX_STAGES" "STAGE_CONFIGS (playerStage s2) = Some c"
    by (cases "STAGE_CONFIGS (playerStage s2)") auto
  then show ?thesis
  proof cases
    case over
    then have "nextStage s g = s1\<lparr>isGameOver := True, showSummaryModal := True\<rparr>"
      by (simp add: nextStage_def Let_def s1_def)
    moreover have "lapInv (s1\<lparr>isGameOver := True, showSummaryModal := True\<rparr>) = lapInv s1"
      by (rule lapInv_frame) simp_all
    ultimately show ?thesis using i1 by simp
  next
    case none
    then have "nextStage s g = s2"
      by (simp add: nextStage_def Let_def s1_def s2_def)
    with i2 show ?thesis by simp
  next
    case some
    then have e: "nextStage s g = fst (setupStage (s2\<lparr>currentStageConfig := c\<rparr>) g)"
      by (simp add: nextStage_def Let_def s1_def s2_def)
    have "quotasOrdered (currentStageConfig (s2\<lparr>currentStageConfig := c\<rparr>))"
      using STAGE_CONFIGS_ordered[OF some(2)] by simp
    with assms(1) show ?thesis unfolding e by (rule setupStage_lapInv)
  qed
qed

lemma defeatBoss_lapInv:
  assumes "valid_rng g" "lapInv s" "defeatBoss w s g = Inr t"
  shows "lapInv t"
proof (cases w)
  case True
  with assms(3) have "t = nextStage s g" by (simp add: defeatBoss_def)
  with assms(1,2) show ?thesis by (simp add: nextStage_lapInv)
next
  case False
  with assms(3) obtain b where b: "currentBoss s = Some b"
    by (cases "currentBoss s") (simp_all add: defeatBoss_def Let_def)
  define s1 where "s1 = (if sum_list (currentDiceThrows s) = boss_hp b
             then s\<lparr>bossesDefeated := bossesDefeated s + 1,
                    perfectBossDefeats := perfectBossDefeats s + 1\<rparr>
             else s\<lparr>bossesDefeated := bossesDefeated s + 1\<rparr>)"
  have "lapInv s1 = lapInv s"
    by (rule lapInv_frame) (simp_all add: s1_def)
  then have "lapInv s1" using assms(2) by simp
  moreover have "t = nextStage s1 g"
    using assms(3) False b by (simp add: defeatBoss_def Let_def s1_def split: if_splits)
  ultimately show ?thesis using assms(1) by (simp add: nextStage_lapInv)
qed

lemma throwAtBoss_lapInv: "lapInv (throwAtBoss r s) = lapInv s"
  by (rule lapInv_frame) (simp_all add: throwAtBoss_def applyBossDamage_def split: option.splits)

lemma resolveBossThrow_lapInv:
  assumes "valid_rng g" "lapInv s" "resolveBossThrow s g = Inr t"
  shows "lapInv t"
proof (cases "currentBoss s")
  case None
  with assms(3) show ?thesis by (simp add: resolveBossThrow_def)
next
  case (Some b)
  show ?thesis
  proof (cases "boss_hp b \<le> sum_list (currentDiceThrows s)")
    case True
    with Some assms(3) have "defeatBoss False s g = Inr t"
      by (simp add: resolveBossThrow_def)
    with assms(1,2) show ?thesis by (rule defeatBoss_lapInv)
  next
    case False
    with Some assms(3) have "t = failBossFight s \<or> t = s"
      by (auto simp add: resolveBossThrow_def split: if_splits)
    moreover have "lapInv (failBossFight s) = lapInv s"
      by (rule lapInv_frame) (simp_all add: failBossFight_def)
    ultimately show ?thesis using assms(2) by auto
  qed
qed

lemma bossRoll_rng:
  assumes "bossRoll d g = Inr (r, h)" "valid_rng g"
  shows "valid_rng h"
proof -
  from assms(1) have "h = g \<or> h = rng_tl g"
    by (cases "die_type d")
      (auto simp add: bossRoll_def getRandomInt_def Math_random_def split: option.splits)
  with assms(2) show ?thesis using valid_rng_tl by blast
qed

lemma rollSteps_rng:
  assumes "valid_rng g"
  shows "valid_rng (snd (rollSteps d g))"
proof -
  have "snd (rollSteps d g) = g \<or> snd (rollSteps d g) = rng_tl g"
    by (cases "die_type d")
      (simp_all add: rollSteps_def getRandomInt_def Math_random_def case_prod_beta)
  with assms show ?thesis using valid_rng_tl by metis
qed

lemma rollDiceForBoss_lapInv:
  assumes "valid_rng g" "lapInv s" "rollDiceForBoss dr s g = Inr t"
  shows "lapInv t"
proof (cases "gamePhase s = boss_encounter")
  case False
  with assms show ?thesis by (simp add: rollDiceForBoss_def)
next
  case True
  have "\<exists>r u h. lapInv u \<and> valid_rng h \<and> resolveBossThrow (throwAtBoss r u) h = Inr t"
  proof (cases dr)
    case (InBag k)
    show ?thesis
    proof (cases "k < length (reservedDice s)")
      case k: True
      have "lapInv (s\<lparr>reservedDice := removeAt k (reservedDice s)\<rparr>) = lapInv s"
        by (rule lapInv_frame) simp_all
      then have u: "lapInv (s\<lparr>reservedDice := removeAt k (reservedDice s)\<rparr>)"
        using assms(2) by simp
      from assms(3) True InBag k obtain r h where b: "bossRoll (reservedDice s ! k) g = Inr (r, h)"
        by (cases "bossRoll (reservedDice s ! k) g") (auto simp add: rollDiceForBoss_def)
      with assms(3) True InBag k have
        "resolveBossThrow (throwAtBoss r (s\<lparr>reservedDice := removeAt k (reservedDice s)\<rparr>)) h = Inr t"
        by (simp add: rollDiceForBoss_def)
      moreover have "valid_rng h" using b assms(1) by (rule bossRoll_rng)
      ultimately show ?thesis using u by blast
    next
      case False
      with assms(3) True InBag show ?thesis by (simp add: rollDiceForBoss_def)
    qed
  next
    case (NotInBag d)
    from assms(3) True NotInBag obtain r h where b: "bossRoll d g = Inr (r, h)"
      by (cases "bossRoll d g") (auto simp add: rollDiceForBoss_def)
    with assms(3) True NotInBag have "resolveBossThrow (throwAtBoss r s) h = Inr t"
      by (simp add: rollDiceForBoss_def)
    moreover have "valid_rng h" using b assms(1) by (rule bossRoll_rng)
    ultimately show ?thesis using assms(2) by blast
  qed
  then obtain r u h where u: "lapInv u" "valid_rng h"
    "resolveBossThrow (throwAtBoss r u) h = Inr t" by blast
  have "lapInv (throwAtBoss r u)" using u(1) by (simp add: throwAtBoss_lapInv)
  with u(2) show ?thesis using u(3) by (rule resolveBossThrow_lapInv)
qed

lemma payToDefeatBoss_lapInv:
  assumes "valid_rng g" "lapInv s" "payToDefeatBoss s g = Inr t"
  shows "lapInv t"
proof (cases "currentBoss s")
  case None
  with assms show ?thesis by (simp add: payToDefeatBoss_def)
next
  case (Some b)
  show ?thesis
  proof (cases "boss_bribeCost b \<le> playerMoney s")
    case True
    let ?s1 = "s\<lparr>playerMoney := playerMoney s - boss_bribeCost b, bribesBosses := bribesBosses s + 1\<rparr>"
    have "lapInv ?s1 = lapInv s" by (rule lapInv_frame) simp_all
    then have i: "lapInv ?s1" using assms(2) by simp
    have "defeatBoss True ?s1 g = Inr t"
      using assms(3) Some True by (simp add: payToDefeatBoss_def Let_def)
    with assms(1) i show ?thesis by (rule defeatBoss_lapInv)
  next
    case False
    with assms Some show ?thesis by (simp add: payToDefeatBoss_def Let_def)
  qed
qed

lemma moveStep_lapInv:
  assumes "valid_rng g" "lapInv s" "moveStep d s g = Inr out"
  shows "case out of Continue u \<Rightarrow> lapInv u | Leave mo \<Rightarrow> outcomeInv mo"
proof (cases "isGameOver s")
  case True
  with assms show ?thesis by (auto simp add: moveStep_def)
next
  case False
  show ?thesis
  proof (cases "d > 0")
    case d: True
    show ?thesis
    proof (cases "js_rem (playerPosition s + 1) (totalBoardSquares s)")
      case None
      with assms(3) False d show ?thesis by (simp add: moveStep_def)
    next
      case (Some p)
      have i1: "lapInv (s\<lparr>playerPosition := p\<rparr>)"
        using assms(2) lapInv_frame[of "s\<lparr>playerPosition := p\<rparr>" s] by simp
      show ?thesis
      proof (cases "p = 0")
        case True
        let ?s2 = "s\<lparr>playerPosition := 0, playerLap := playerLap s + 1\<rparr>"
        have i2: "lapInv ?s2" using assms(2) lapInv_frame[of ?s2 s] by simp
        show ?thesis
        proof (cases "playerLap s + 1 = lapsToComplete (currentStageConfig s)")
          case lap: True
          let ?s3 = "?s2\<lparr>gamePhase := boss_encounter, isAnimating := False\<rparr>"
          have i3: "lapInv ?s3" using i2 lapInv_frame[of ?s3 ?s2] by simp
          from assms(3) False d Some True lap
          obtain s4 where s4: "handleBossEncounter ?s3 = Inr s4" "out = Leave (BossStarted s4)"
            by (cases "handleBossEncounter ?s3") (auto simp add: moveStep_def Let_def)
          from s4(1) i3 have "lapInv s4" by (rule handleBossEncounter_lapInv)
          then show ?thesis by (simp add: s4(2))
        next
          case lap: False
          from assms(3) False d Some True lap
          have "out = Leave (MoveDone (fst (setupLapEffects ?s2 g)) True (snd (setupLapEffects ?s2 g)))"
            by (auto simp add: moveStep_def Let_def case_prod_beta)
          then show ?thesis
            using setupLapEffects_lapInv[OF assms(1) i2] setupLapEffects_rng[OF assms(1), of ?s2]
            by simp
        qed
      next
        case p: False
        have "\<exists>u. moveStep d s g = Inr (Continue u) \<and> boardSquares u = boardSquares s \<and>
            currentStageConfig u = currentStageConfig s"
          using False d Some p
          by (simp add: moveStep_def Let_def
                split: option.splits effect_type.splits effect_details.splits)
        then obtain u where u: "out = Continue u" "boardSquares u = boardSquares s"
            "currentStageConfig u = currentStageConfig s"
          using assms(3) by auto
        from u(2,3) have "lapInv u = lapInv s" by (rule lapInv_frame)
        then show ?thesis using u(1) assms(2) by simp
      qed
    qed
  next
    case d: False
    from assms(3) False d obtain p where "out = Continue (s\<lparr>playerPosition := p\<rparr>)"
      by (auto simp add: moveStep_def split: option.splits)
    moreover have "lapInv (s\<lparr>playerPosition := p\<rparr>) = lapInv s" for p
      by (rule lapInv_frame) simp_all
    ultimately show ?thesis using assms(2) by simp
  qed
qed

lemma moveLoop_lapInv:
  assumes "valid_rng g" "lapInv s" "moveLoop n d s g = Inr mo"
  shows "outcomeInv mo"
  using assms(2,3)
proof (induction n arbitrary: s)
  case 0
  then show ?case using assms(1) by auto
next
  case (Suc n)
  show ?case
  proof (cases "moveStep d s g")
    case (Inl e)
    with Suc.prems show ?thesis by simp
  next
    case (Inr out)
    note st = moveStep_lapInv[OF assms(1) Suc.prems(1) Inr]
    show ?thesis
    proof (cases out)
      case (Continue u)
      with Inr Suc.prems have "moveLoop n d u g = Inr mo" by simp
      moreover have "lapInv u" using st Continue by simp
      ultimately show ?thesis using Suc.IH by blast
    next
      case (Leave mo')
      with Inr Suc.prems have "mo' = mo" by simp
      then show ?thesis using st Leave by simp
    qed
  qed
qed

lemma afterMove_lapInv:
  assumes "valid_rng g" "lapInv s" "afterMove s passed g = Inr t"
  shows "lapInv t"
proof (cases "passed \<and> playerLap s = lapsToComplete (currentStageConfig s)")
  case True
  let ?s1 = "s\<lparr>gamePhase := boss_encounter, isAnimating := False\<rparr>"
  from True assms(3) have "handleBossEncounter ?s1 = Inr t"
    by (simp add: afterMove_def)
  moreover have "lapInv ?s1" using assms(2) lapInv_frame[of ?s1 s] by simp
  ultimately show ?thesis by (rule handleBossEncounter_lapInv)
next
  case False
  then have c: "(passed \<and> playerLap s = lapsToComplete (currentStageConfig s)) = False" by simp
  define s1 where "s1 = fst (if passed then setupLapEffects s g else (s, g))"
  define g1 where "g1 = snd (if passed then setupLapEffects s g else (s, g))"
  define s2 where "s2 = handleSquareLanding (s1\<lparr>gamePhase := landed\<rparr>) g1"
  have i1: "lapInv s1"
    using assms(1,2) setupLapEffects_lapInv[OF assms(1,2)] by (simp add: s1_def)
  have "lapInv (s1\<lparr>gamePhase := landed\<rparr>) = lapInv s1" by (rule lapInv_frame) simp_all
  with i1 have "lapInv (s1\<lparr>gamePhase := landed\<rparr>)" by simp
  then have i2: "lapInv s2" unfolding s2_def by (rule handleSquareLanding_lapInv)
  have e: "afterMove s passed g =
      Inr (if gamePhase s2 = awaiting_choice then s2\<lparr>isAnimating := False\<rparr>
                 else if gamePhase s2 \<noteq> boss_encounter_intro \<and> \<not> isGameOver s2
                 then s2\<lparr>gamePhase := rolling, isAnimating := False\<rparr>
                 else if isGameOver s2 then s2\<lparr>isAnimating := False\<rparr>
                 else s2)"
    unfolding afterMove_def c by (simp add: Let_def case_prod_beta s1_def g1_def s2_def)
  have "boardSquares t = boardSquares s2" "currentStageConfig t = currentStageConfig s2"
    using assms(3) unfolding e by (auto split: if_splits)
  then have "lapInv t = lapInv s2" by (rule lapInv_frame)
  with i2 show ?thesis by simp
qed

lemma movePlayer_lapInv:
  assumes "valid_rng g" "lapInv s" "movePlayer steps s g = Inr t"
  shows "lapInv t"
proof -
  define s1 where "s1 = s\<lparr>gamePhase := player_moving_animation,
                 lastPlayerPositionBeforeThisMove := playerPosition s\<rparr>"
  define r where "r = moveLoop (nat \<bar>steps\<bar>) (if steps > 0 then 1 else - 1) s1 g"
  have m: "movePlayer steps s g =
     (case r of Inl e \<Rightarrow> Inl e | Inr (BossStarted s2) \<Rightarrow> Inr s2
       | Inr (MoveDone s2 passedStartThisTurn g') \<Rightarrow> afterMove s2 passedStartThisTurn g')"
    by (simp add: movePlayer_def Let_def r_def s1_def)
  have i1: "lapInv s1" using assms(2) lapInv_frame[of s1 s] by (simp add: s1_def)
  show ?thesis
  proof (cases r)
    case (Inl e)
    with assms(3) m show ?thesis by simp
  next
    case (Inr mo)
    then have "moveLoop (nat \<bar>steps\<bar>) (if steps > 0 then 1 else - 1) s1 g = Inr mo"
      by (simp add: r_def)
    with assms(1) i1 have o: "outcomeInv mo" by (rule moveLoop_lapInv)
    show ?thesis
    proof (cases mo)
      case (BossStarted s2)
      with Inr assms(3) m have "s2 = t" by simp
      with o BossStarted show ?thesis by simp
    next
      case (MoveDone s2 p g')
      with Inr assms(3) m have a: "afterMove s2 p g' = Inr t" by simp
      have "valid_rng g'" "lapInv s2" using o MoveDone by simp_all
      then show ?thesis using a by (rule afterMove_lapInv)
    qed
  qed
qed

lemma rollDice_lapInv:
  assumes "valid_rng g" "lapInv s" "rollDice i s g = Inr t"
  shows "lapInv t"
proof (cases "gamePhase s = boss_encounter")
  case True
  show ?thesis
  proof (cases "remainingBossRolls s \<le> 0")
    case r: True
    with True assms show ?thesis by (simp add: rollDice_def)
  next
    case r: False
    let ?t = "throwAtBoss \<lceil>g 0 * 6\<rceil> (s\<lparr>remainingBossRolls := remainingBossRolls s - 1\<rparr>)"
    have "lapInv (s\<lparr>remainingBossRolls := remainingBossRolls s - 1\<rparr>) = lapInv s"
      by (rule lapInv_frame) simp_all
    then have i: "lapInv ?t" using assms(2) by (simp add: throwAtBoss_lapInv)
    have v: "valid_rng (rng_tl g)" using assms(1) by (rule valid_rng_tl)
    have "resolveBossThrow ?t (rng_tl g) = Inr t"
      using rollDice_boss[OF True, of i g] r assms(3) by simp
    with v i show ?thesis by (rule resolveBossThrow_lapInv)
  qed
next
  case False
  show ?thesis
  proof (cases "isGameOver s \<or> gamePhase s \<noteq> rolling \<or> isAnimating s")
    case True
    with False assms show ?thesis by (auto simp add: rollDice_def)
  next
    case idle: False
    from False have f1: "(gamePhase s = boss_encounter) = False" by simp
    from idle have f2: "(isGameOver s \<or> gamePhase s \<noteq> rolling \<or> isAnimating s) = False" by simp
    have "\<exists>steps u d. rollDice i s g = movePlayer steps u (snd (rollSteps d g)) \<and>
        boardSquares u = boardSquares s \<and> currentStageConfig u = currentStageConfig s"
      unfolding rollDice_def f1 f2 Let_def case_prod_beta if_False
      by (intro exI conjI, rule refl) simp_all
    then obtain steps u d where u: "rollDice i s g = movePlayer steps u (snd (rollSteps d g))"
      "boardSquares u = boardSquares s" "currentStageConfig u = currentStageConfig s"
      by blast
    from u(2,3) have "lapInv u = lapInv s" by (rule lapInv_frame)
    with assms(2) have i: "lapInv u" by simp
    have v: "valid_rng (snd (rollSteps d g))" using assms(1) by (rule rollSteps_rng)
    from assms(3) have "movePlayer steps u (snd (rollSteps d g)) = Inr t" unfolding u(1) .
    with v i show ?thesis by (rule movePlayer_lapInv)
  qed
qed

lemma step_lapInv:
  assumes "valid_rng g" "lapInv s" "step c s g = Inr t"
  shows "lapInv t"
proof (cases c)
  case InitializeGame
  with assms(3) have "t = initializeGame s g" by (simp add: step_def)
  then show ?thesis using initializeGame_lapInv[OF assms(1,2)] by simp
next
  case (RollDice i)
  with assms(3) have "rollDice i s g = Inr t" by (simp add: step_def)
  with assms(1,2) show ?thesis by (rule rollDice_lapInv)
next
  case (RollDiceForBoss dr)
  with assms(3) have "rollDiceForBoss dr s g = Inr t" by (simp add: step_def)
  with assms(1,2) show ?thesis by (rule rollDiceForBoss_lapInv)
next
  case (PlayerMakesChoice opt)
  with assms(3) have "t = playerMakesChoice opt s" by (simp add: step_def)
  then show ?thesis using playerMakesChoice_lapInv[OF assms(2)] by simp
next
  case PayToDefeatBoss
  with assms(3) have "payToDefeatBoss s g = Inr t" by (simp add: step_def)
  with assms(1,2) show ?thesis by (rule payToDefeatBoss_lapInv)
next
  case ResetGame
  with assms(3) have "t = resetGame s g" by (simp add: step_def)
  then show ?thesis using resetGame_lapInv[OF assms(1)] by simp
qed

lemma run_lapInv:
  assumes "list_all (\<lambda>cg. valid_rng (snd cg)) cs" "lapInv s" "run cs s = Inr t"
  shows "lapInv t"
  using assms
proof (induction cs arbitrary: s)
  case Nil
  then show ?case by simp
next
  case (Cons cg cs)
  obtain c g where cg: "cg = (c, g)" by (cases cg)
  from Cons.prems(3) obtain s' where s': "step c s g = Inr s'" "run cs s' = Inr t"
    unfolding cg by (cases "step c s g") simp_all
  have v: "valid_rng g" "list_all (\<lambda>cg. valid_rng (snd cg)) cs"
    using Cons.prems(1) by (simp_all add: cg)
  have "lapInv s'" using v(1) Cons.prems(2) s'(1) by (rule step_lapInv)
  with v(2) show ?case using s'(2) by (rule Cons.IH)
qed

lemma initialState_lapInv: "lapInv initialState"
  by (simp add: lapInv_def boardWellFormed_def initialState_def stage_quotas_ordered)

text \<open>
  C9. After setupLapEffects, for any stage configuration whose quotas are ordered
  (as those of the five stages are) and any board that is numbered by index and has
  effects on candidate squares only: no corner square carries an effect or the bad mark;
  the quotas \<open>nb\<close>, \<open>nd\<close>, \<open>np\<close> drawn for bad, dice-or-money and pick-a-die squares lie
  within their configured bounds, and the number of squares carrying each effect is
  that quota, or what was left of the candidates when they ran out; every candidate
  left over carries a money effect. The four counts add up to the number of
  candidates, so no square was assigned twice. The two conditions on the state hold
  for the generated board, after setupLapEffects again, and in every state that a run
  of commands reaches from the initial state, hence at every lap of every stage.
\<close>

theorem lap_effects_within_quotas:
  assumes "valid_rng g" and "boardWellFormed s" and "quotasOrdered (currentStageConfig s)"
  shows "boardWellFormed (fst (setupLapEffects s g)) \<and>
    length (boardSquares (fst (setupLapEffects s g))) = length (boardSquares s) \<and>
    (\<forall>sq\<in>set (boardSquares (fst (setupLapEffects s g))).
        sq_id sq \<in> set (cornerSquareIds s) \<longrightarrow> currentEffectType sq = E_none \<and> \<not> isTempBad sq) \<and>
    (\<exists>nb nd np kb kd kp.
       minBadSquares (currentStageConfig s) \<le> nb \<and> nb \<le> maxBadSquares (currentStageConfig s) \<and>
       minChoiceDiceMoneySquares (currentStageConfig s) \<le> nd \<and>
       nd \<le> maxChoiceDiceMoneySquares (currentStageConfig s) \<and>
       minChoicePickDieSquares (currentStageConfig s) \<le> np \<and>
       np \<le> maxChoicePickDieSquares (currentStageConfig s) \<and>
       kb = min (nat nb) (length (candidateSquareIds s)) \<and>
       kd = min (nat nd) (length (candidateSquareIds s) - kb) \<and>
       kp = min (nat np) (length (candidateSquareIds s) - kb - kd) \<and>
       countEffects [E_temp_bad_lap] (boardSquares (fst (setupLapEffects s g))) = kb \<and>
       countEffects [E_choice_dice_money] (boardSquares (fst (setupLapEffects s g))) = kd \<and>
       countEffects [E_choice_pick_die] (boardSquares (fst (setupLapEffects s g))) = kp \<and>
       countEffects [E_huge_money, E_normal_money] (boardSquares (fst (setupLapEffects s g)))
         = length (candidateSquareIds s) - kb - kd - kp) \<and>
    boardWellFormed (generateBoardLayout s) \<and>
    quotasOrdered stage1 \<and> quotasOrdered stage2 \<and> quotasOrdered stage3 \<and>
    quotasOrdered stage4 \<and> quotasOrdered stage5 \<and>
    (list_all (\<lambda>cg. valid_rng (snd cg)) cs \<longrightarrow> run cs initialState = Inr t \<longrightarrow>
       boardWellFormed t \<and> quotasOrdered (currentStageConfig t))"
proof -
  let ?b' = "boardSquares (fst (setupLapEffects s g))"
  note c = setupLapEffects_counts[OF assms]
  have wf': "boardWellFormed (fst (setupLapEffects s g))"
    using assms by (rule setupLapEffects_wellFormed)
  have len: "length ?b' = length (boardSquares s)" by (rule c(2))
  have corners: "\<forall>sq\<in>set ?b'. sq_id sq \<in> set (cornerSquareIds s) \<longrightarrow>
      currentEffectType sq = E_none \<and> \<not> isTempBad sq"
    using setupLapEffects_each[OF assms] by blast
  have reach: "list_all (\<lambda>cg. valid_rng (snd cg)) cs \<longrightarrow> run cs initialState = Inr t \<longrightarrow>
       boardWellFormed t \<and> quotasOrdered (currentStageConfig t)"
  proof (intro impI)
    assume "list_all (\<lambda>cg. valid_rng (snd cg)) cs" "run cs initialState = Inr t"
    with initialState_lapInv have "lapInv t" by (intro run_lapInv[of cs initialState t])
    then show "boardWellFormed t \<and> quotasOrdered (currentStageConfig t)"
      by (simp add: lapInv_def)
  qed
  show ?thesis
    using wf' len corners c(1) generateBoardLayout_wellFormed stage_quotas_ordered reach
    by (intro conjI)
qed

lemma stage1_board:
  "boardSquares (generateBoardLayout initialState) =
     map (\<lambda>i. newSquare [0, 5, 10, 15] 10 (int i)) [0 ..< 20]"
  by (simp add: cornerSquareIds_def bottomRightCornerId_def board_defs stage1_def Let_def)

lemma stage1_candidates: "length (candidateSquareIds (generateBoardLayout initialState)) = 16"
  unfolding candidateSquareIds_def stage1_board
  by (simp add: cornerSquareIds_def newSquare_def arr_get_def generateBoardLayout_def
        initialState_def stage1_def Let_def eval_nat_numeral)

theorem lap_effects_within_quotas_witness:
  "valid_rng (constRng 0) \<and> boardWellFormed (generateBoardLayout initialState) \<and>
   quotasOrdered (currentStageConfig (generateBoardLayout initialState)) \<and>
   length (candidateSquareIds (generateBoardLayout initialState)) = 16 \<and>
   boardWellFormed (fst (setupLapEffects (generateBoardLayout initialState) (constRng 0))) \<and>
   length (boardSquares (fst (setupLapEffects (generateBoardLayout initialState) (constRng 0)))) = 20 \<and>
   currentEffectType
     (boardSquares (fst (setupLapEffects (generateBoardLayout initialState) (constRng 0))) ! 5)
     = E_none \<and>
   (\<exists>nb nd np. 1 \<le> nb \<and> nb \<le> 2 \<and> 2 \<le> nd \<and> nd \<le> 4 \<and> 2 \<le> np \<and> np \<le> 4 \<and>
      countEffects [E_temp_bad_lap]
        (boardSquares (fst (setupLapEffects (generateBoardLayout initialState) (constRng 0))))
        = nat nb \<and>
      countEffects [E_choice_dice_money]
        (boardSquares (fst (setupLapEffects (generateBoardLayout initialState) (constRng 0))))
        = nat nd \<and>
      countEffects [E_choice_pick_die]
        (boardSquares (fst (setupLapEffects (generateBoardLayout initialState) (constRng 0))))
        = nat np \<and>
      countEffects [E_huge_money, E_normal_money]
        (boardSquares (fst (setupLapEffects (generateBoardLayout initialState) (constRng 0))))
        = 16 - nat nb - nat nd - nat np) \<and>
   run [(InitializeGame, constRng 0)] initialState = Inr startedGame \<and>
   boardWellFormed startedGame"
proof -
  let ?s = "generateBoardLayout initialState" and ?g = "constRng 0"
  let ?b' = "boardSquares (fst (setupLapEffects ?s ?g))"
  have a: "valid_rng ?g" by (simp add: valid_rng_def constRng_def)
  have b: "boardWellFormed ?s" by (rule generateBoardLayout_wellFormed)
  have cfg: "currentStageConfig ?s = stage1"
    by (simp add: generateBoardLayout_def initialState_def)
  have c: "quotasOrdered (currentStageConfig ?s)" unfolding cfg by (rule stage_quotas_ordered)
  have d: "length (candidateSquareIds ?s) = 16" by (rule stage1_candidates)
  have len0: "length (boardSquares ?s) = 20" unfolding stage1_board by simp
  have cor0: "cornerSquareIds ?s = [0, 5, 10, 15]"
    by (simp add: cornerSquareIds_def cfg stage1_def)
  let ?cs = "[(InitializeGame, constRng 0)]"
  have rn: "run ?cs initialState = Inr startedGame"
    by (simp add: step_def startedGame_def)
  have vs: "list_all (\<lambda>cg. valid_rng (snd cg)) ?cs" using a by simp
  note t = lap_effects_within_quotas[OF a b c, where cs = ?cs and t = startedGame]
  from t vs rn have sg: "boardWellFormed startedGame" by blast
  from t have wf': "boardWellFormed (fst (setupLapEffects ?s ?g))" by blast
  from t len0 have len: "length ?b' = 20" by simp
  from t have cor: "\<forall>sq\<in>set ?b'. sq_id sq \<in> set (cornerSquareIds ?s) \<longrightarrow>
      currentEffectType sq = E_none \<and> \<not> isTempBad sq" by blast
  have ids: "map sq_id ?b' = map int [0 ..< length ?b']"
    using wf' by (simp add: boardWellFormed_def)
  have "sq_id (?b' ! 5) = map sq_id ?b' ! 5" using len by simp
  also have "\<dots> = map int [0 ..< 20] ! 5" using ids unfolding len by simp
  also have "\<dots> = 5" by simp
  finally have i5: "sq_id (?b' ! 5) = 5" .
  have "?b' ! 5 \<in> set ?b'" using len by simp
  with cor i5 have e5: "currentEffectType (?b' ! 5) = E_none" unfolding cor0 by simp
  from t obtain nb nd np kb kd kp where q:
    "minBadSquares (currentStageConfig ?s) \<le> nb" "nb \<le> maxBadSquares (currentStageConfig ?s)"
    "minChoiceDiceMoneySquares (currentStageConfig ?s) \<le> nd"
    "nd \<le> maxChoiceDiceMoneySquares (currentStageConfig ?s)"
    "minChoicePickDieSquares (currentStageConfig ?s) \<le> np"
    "np \<le> maxChoicePickDieSquares (currentStageConfig ?s)"
    "kb = min (nat nb) (length (candidateSquareIds ?s))"
    "kd = min (nat nd) (length (candidateSquareIds ?s) - kb)"
    "kp = min (nat np) (length (candidateSquareIds ?s) - kb - kd)"
    "countEffects [E_temp_bad_lap] ?b' = kb"
    "countEffects [E_choice_dice_money] ?b' = kd"
    "countEffects [E_choice_pick_die] ?b' = kp"
    "countEffects [E_huge_money, E_normal_money] ?b'
       = length (candidateSquareIds ?s) - kb - kd - kp"
    by blast
  have r: "1 \<le> nb" "nb \<le> 2" "2 \<le> nd" "nd \<le> 4" "2 \<le> np" "np \<le> 4"
    using q(1-6) unfolding cfg by (simp_all add: stage1_def)
  have kb: "kb = nat nb" unfolding q(7) d using r by simp
  have kd: "kd = nat nd" unfolding q(8) d kb using r by simp
  have kp: "kp = nat np" unfolding q(9) d kb kd using r by simp
  have "1 \<le> nb \<and> nb \<le> 2 \<and> 2 \<le> nd \<and> nd \<le> 4 \<and> 2 \<le> np \<and> np \<le> 4 \<and>
      countEffects [E_temp_bad_lap] ?b' = nat nb \<and>
      countEffects [E_choice_dice_money] ?b' = nat nd \<and>
      countEffects [E_choice_pick_die] ?b' = nat np \<and>
      countEffects [E_huge_money, E_normal_money] ?b' = 16 - nat nb - nat nd - nat np"
    using r q(10-13) unfolding d kb kd kp by (intro conjI)
  then have ex: "\<exists>nb nd np. 1 \<le> nb \<and> nb \<le> 2 \<and> 2 \<le> nd \<and> nd \<le> 4 \<and> 2 \<le> np \<and> np \<le> 4 \<and>
      countEffects [E_temp_bad_lap] ?b' = nat nb \<and>
      countEffects [E_choice_dice_money] ?b' = nat nd \<and>
      countEffects [E_choice_pick_die] ?b' = nat np \<and>
      countEffects [E_huge_money, E_normal_money] ?b' = 16 - nat nb - nat nd - nat np"
    apply -
    apply (rule exI)+
    apply assumption
    done
  show ?thesis using a b c d wf' len e5 ex rn sg by (intro conjI)
qed

end
